theory Spec2Isabelle
  imports Complex_Main "HOL-Library.Word"
begin

unbundle bit_operations_syntax

section \<open>JavaScript arrays\<close>

text \<open>
  Object references are natural numbers; an array of objects is a list of references.
  Numbers that the code uses as array positions are modelled as \<open>int\<close>; \<open>splice\<close> takes
  the integer of the number it is given.

  \<open>Array.prototype.splice(start, ...)\<close> first turns \<open>start\<close> into a position: a negative
  \<open>start\<close> counts from the end of the array and stops at 0, a \<open>start\<close> beyond the
  end is the length.
\<close>

type_synonym ref = nat

definition spliceStart :: "int \<Rightarrow> nat \<Rightarrow> nat" where
  "spliceStart start len =
     (if start < 0 then nat (max (int len + start) 0) else min (nat start) len)"

text \<open>\<open>xs.splice(start, 1)\<close>: the array after the call.\<close>

definition spliceDelete :: "int \<Rightarrow> 'a list \<Rightarrow> 'a list" where
  "spliceDelete start xs =
     (let k = spliceStart start (length xs) in take k xs @ drop (Suc k) xs)"

text \<open>\<open>xs.splice(start, 0, x)\<close>: the array after the call.\<close>

definition spliceInsert :: "int \<Rightarrow> 'a \<Rightarrow> 'a list \<Rightarrow> 'a list" where
  "spliceInsert start x xs =
     (let k = spliceStart start (length xs) in take k xs @ x # drop k xs)"

text \<open>\<open>xs.indexOf(x)\<close>: the first position of \<open>x\<close>, or -1.\<close>

fun indexOf :: "'a list \<Rightarrow> 'a \<Rightarrow> int" where
  "indexOf [] x = -1"
| "indexOf (y # ys) x =
     (if y = x then 0 else (let i = indexOf ys x in if i = -1 then -1 else i + 1))"

section \<open>Render passes of the basic render pipeline\<close>

text \<open>
  A render pass is an object with the fields the pipeline reads. The pipeline owns the
  array \<open>_renderPassArray\<close> of references to passes; the passes themselves live in a
  store, since \<open>indexOf\<close> compares references and \<open>getRenderPass\<close> compares names.
  The field \<open>name\<close> of a pass is called \<open>passName\<close> here, its render target, clear
  flags and clear colour carry the prefix \<open>pass\<close>; the camera has fields of the same
  names.
\<close>

record renderPass =
  passName :: string
  priority :: int
  passRenderTarget :: "ref option"
  replaceMaterial :: "ref option"
  mask :: "32 word option"
  enabled :: bool
  renderOverride :: bool
  passClearFlags :: "32 word option"
  passClearColor :: "ref option"

record pipeline =
  renderPassArray :: "ref list"
  passStore :: "ref \<Rightarrow> renderPass"
  lastCanvasSize :: "int \<times> int"

text \<open>
  \<open>addRenderPass\<close> with a pass object: push, then sort by priority. The sort of an
  array is stable, so passes of equal priority keep their order.
\<close>

definition addRenderPass :: "ref \<Rightarrow> pipeline \<Rightarrow> pipeline" where
  "addRenderPass r p =
     p\<lparr>renderPassArray :=
         sort_key (\<lambda>x. priority (passStore p x)) (renderPassArray p @ [r])\<rparr>"

text \<open>\<open>getRenderPass\<close>: the first pass of the array with the name, or null.\<close>

fun getRenderPassIn :: "(ref \<Rightarrow> renderPass) \<Rightarrow> ref list \<Rightarrow> string \<Rightarrow> ref option" where
  "getRenderPassIn st [] n = None"
| "getRenderPassIn st (r # rs) n =
     (if passName (st r) = n then Some r else getRenderPassIn st rs n)"

definition getRenderPass :: "pipeline \<Rightarrow> string \<Rightarrow> ref option" where
  "getRenderPass p n = getRenderPassIn (passStore p) (renderPassArray p) n"

text \<open>
  The argument of \<open>removeRenderPass\<close> is a name, a pass object, or (when the caller
  passes null) neither, in which case \<open>pass\<close> stays undefined.
\<close>

datatype nameOrPass = Name string | Pass ref | Neither

definition removeRenderPass :: "nameOrPass \<Rightarrow> pipeline \<Rightarrow> pipeline" where
  "removeRenderPass nameOrPass p =
     (let pass = (case nameOrPass of
                    Name n \<Rightarrow> getRenderPass p n
                  | Pass r \<Rightarrow> Some r
                  | Neither \<Rightarrow> None)
      in case pass of
           None \<Rightarrow> p
         | Some r \<Rightarrow>
             (let idx = indexOf (renderPassArray p) r
              in p\<lparr>renderPassArray := spliceDelete idx (renderPassArray p)\<rparr>))"

text \<open>
  The pipeline a camera starts with: the default pass (reference 0, priority 0) alone.
\<close>

definition defaultPass :: renderPass where
  "defaultPass =
     \<lparr>passName = ''default'', priority = 0, passRenderTarget = None,
      replaceMaterial = None, mask = Some 0, enabled = True, renderOverride = False,
      passClearFlags = None, passClearColor = None\<rparr>"

definition newPipeline :: pipeline where
  "newPipeline =
     addRenderPass 0
       \<lparr>renderPassArray = [], passStore = (\<lambda>_. defaultPass), lastCanvasSize = (0, 0)\<rparr>"

section \<open>Executing a render pass\<close>

text \<open>
  Modelled from the spec: the enumeration \<open>CameraClearFlags\<close> is not among the
  sources. \<open>None\<close> is the empty set of flags and \<open>Color\<close> is one bit of the set
  (the code tests it with a bitwise and).
\<close>

definition CameraClearFlags_None :: "32 word" where
  "CameraClearFlags_None = 0"

definition CameraClearFlags_Color :: "32 word" where
  "CameraClearFlags_Color = 1"

datatype backgroundMode = SolidColor | Sky | Texture

datatype backgroundTextureFillMode = AspectFitWidth | AspectFitHeight | Fill

record background =
  mode :: backgroundMode
  sky :: ref
  texture :: "ref option"
  solidColor :: ref
  textureFillMode :: backgroundTextureFillMode

type_synonym vec3 = "real \<times> real \<times> real"

text \<open>
  The camera, with what the pipeline reads of it: its own fields, the world position and
  forward vector of its entity's transform, the background of its scene and the size of
  the engine's canvas.
\<close>

record camera =
  camRenderTarget :: "ref option"
  viewport :: ref
  camClearFlags :: "32 word"
  cullingMask :: "32 word"
  enableFrustumCulling :: bool
  isOrthographic :: bool
  worldPosition :: vec3
  worldForward :: vec3
  frustum :: ref
  sceneBackground :: background
  canvasSize :: "int \<times> int"

datatype queueKind = OpaqueQueue | AlphaTestQueue | TransparentQueue

text \<open>
  What a pass does is a sequence of calls to the hardware renderer, the render target, the
  queues, the background and the hooks of the pass. The calls are recorded in the order
  in which the code makes them. The hooks \<open>preRender\<close>, \<open>render\<close> and \<open>postRender\<close>
  belong to the pass; a hook is recorded as a call, and what a subclass does inside it
  is outside the model.
\<close>

datatype event =
    PreRender ref
  | ActiveRenderTarget "ref option" ref "int option"
  | SetRenderTargetInfo ref "int option" "int option"
  | ClearRenderTarget "32 word" ref
  | PassRender ref
  | QueueRender queueKind "ref option" "32 word option"
  | SkyRender ref
  | ResizeBackgroundTexture
  | DrawBackgroundTexture
  | BlitRenderTarget ref
  | GenerateMipmaps ref
  | PostRender ref

text \<open>\<open>renderTarget?.f()\<close>: the call when there is a render target, nothing otherwise.\<close>

definition onTarget :: "ref option \<Rightarrow> (ref \<Rightarrow> event) \<Rightarrow> event list" where
  "onTarget rt f = (case rt of None \<Rightarrow> [] | Some t \<Rightarrow> [f t])"

definition drawBackgroundTexture :: "camera \<Rightarrow> pipeline \<Rightarrow> event list \<times> pipeline" where
  "drawBackgroundTexture cam p =
     (if (fst (lastCanvasSize p) \<noteq> fst (canvasSize cam)
          \<or> snd (lastCanvasSize p) \<noteq> snd (canvasSize cam))
         \<and> textureFillMode (sceneBackground cam) \<noteq> Fill
      then ([ResizeBackgroundTexture, DrawBackgroundTexture],
            p\<lparr>lastCanvasSize := canvasSize cam\<rparr>)
      else ([DrawBackgroundTexture], p))"

text \<open>The part of a pass between the two queues that are drawn first and the last one.\<close>

definition drawBackground :: "camera \<Rightarrow> pipeline \<Rightarrow> event list \<times> pipeline" where
  "drawBackground cam p =
     (if camClearFlags cam AND CameraClearFlags_Color \<noteq> 0
      then (if mode (sceneBackground cam) = Sky
            then ([SkyRender (sky (sceneBackground cam))], p)
            else if mode (sceneBackground cam) = Texture
                    \<and> texture (sceneBackground cam) \<noteq> None
            then drawBackgroundTexture cam p
            else ([], p))
      else ([], p))"

definition drawRenderPass ::
  "camera \<Rightarrow> int option \<Rightarrow> int option \<Rightarrow> ref \<Rightarrow> pipeline \<Rightarrow> event list \<times> pipeline" where
  "drawRenderPass cam cubeFace mipLevel r p =
     (let pass = passStore p r in
      if enabled pass
      then
        (let renderTarget =
               (case camRenderTarget cam of Some t \<Rightarrow> Some t | None \<Rightarrow> passRenderTarget pass);
             clearFlags =
               (case passClearFlags pass of Some f \<Rightarrow> f | None \<Rightarrow> camClearFlags cam);
             color =
               (case passClearColor pass of
                  Some c \<Rightarrow> c
                | None \<Rightarrow> solidColor (sceneBackground cam));
             bind = ActiveRenderTarget renderTarget (viewport cam) mipLevel
                      # onTarget renderTarget (\<lambda>t. SetRenderTargetInfo t cubeFace mipLevel);
             clear = (if clearFlags \<noteq> CameraClearFlags_None
                      then [ClearRenderTarget clearFlags color] else []);
             finish = onTarget renderTarget BlitRenderTarget
                        @ onTarget renderTarget GenerateMipmaps
         in if renderOverride pass
            then ([PreRender r] @ bind @ clear @ [PassRender r] @ finish @ [PostRender r], p)
            else
              (let (bg, p') = drawBackground cam p
               in ([PreRender r] @ bind @ clear
                     @ [QueueRender OpaqueQueue (replaceMaterial pass) (mask pass),
                        QueueRender AlphaTestQueue (replaceMaterial pass) (mask pass)]
                     @ bg
                     @ [QueueRender TransparentQueue (replaceMaterial pass) (mask pass)]
                     @ finish @ [PostRender r],
                   p')))
      else ([PreRender r, PostRender r], p))"

text \<open>The loop of \<open>render\<close> over the passes, in the order of the array.\<close>

fun drawRenderPasses ::
  "camera \<Rightarrow> int option \<Rightarrow> int option \<Rightarrow> ref list \<Rightarrow> pipeline \<Rightarrow> event list \<times> pipeline" where
  "drawRenderPasses cam cubeFace mipLevel [] p = ([], p)"
| "drawRenderPasses cam cubeFace mipLevel (r # rs) p =
     (let (es, p') = drawRenderPass cam cubeFace mipLevel r p;
          (fs, p'') = drawRenderPasses cam cubeFace mipLevel rs p'
      in (es @ fs, p''))"

text \<open>Kinds of calls, to pick them out of a sequence.\<close>

fun isBind :: "event \<Rightarrow> bool" where
  "isBind (ActiveRenderTarget rt v m) = True"
| "isBind e = False"

fun isClear :: "event \<Rightarrow> bool" where
  "isClear (ClearRenderTarget f c) = True"
| "isClear e = False"

fun isHook :: "event \<Rightarrow> bool" where
  "isHook (PreRender r) = True"
| "isHook (PostRender r) = True"
| "isHook (PassRender r) = True"
| "isHook e = False"

text \<open>A camera and a pass to try the definitions on.\<close>

definition someBackground :: background where
  "someBackground =
     \<lparr>mode = SolidColor, sky = 0, texture = None, solidColor = 9, textureFillMode = Fill\<rparr>"

definition someCamera :: camera where
  "someCamera =
     \<lparr>camRenderTarget = Some 1, viewport = 0, camClearFlags = 7, cullingMask = 1,
      enableFrustumCulling = False, isOrthographic = True,
      worldPosition = (0, 0, 0), worldForward = (0, 0, - 1), frustum = 0,
      sceneBackground = someBackground, canvasSize = (800, 600)\<rparr>"

definition somePipeline :: pipeline where
  "somePipeline =
     \<lparr>renderPassArray = [0, 1],
      passStore = (\<lambda>r. if r = 1
                        then defaultPass\<lparr>passName := ''post'', priority := 1,
                                          passRenderTarget := Some 2\<rparr>
                        else if r = 2
                        then defaultPass\<lparr>passName := ''off'', enabled := False\<rparr>
                        else defaultPass),
      lastCanvasSize = (0, 0)\<rparr>"

section \<open>Culling and sort keys\<close>

text \<open>
  The vector mathematics is a package of its own and is taken as a parameter: whatever
  \<open>BoundingBox.getCenter\<close>, \<open>BoundingFrustum.intersectsBox\<close>, \<open>Vector3.subtract\<close>,
  \<open>Vector3.dot\<close> and \<open>Vector3.distanceSquared\<close> compute, \<open>_callRender\<close> combines them
  as below. A bounding box is the pair of its corners.
\<close>

record mathLib =
  getCenter :: "vec3 \<times> vec3 \<Rightarrow> vec3"
  intersectsBox :: "ref \<Rightarrow> vec3 \<times> vec3 \<Rightarrow> bool"
  subtract :: "vec3 \<Rightarrow> vec3 \<Rightarrow> vec3"
  dot :: "vec3 \<Rightarrow> vec3 \<Rightarrow> real"
  distanceSquared :: "vec3 \<Rightarrow> vec3 \<Rightarrow> real"

record renderer =
  layer :: "32 word"
  bounds :: "vec3 \<times> vec3"
  isCulled :: bool
  distanceForSort :: real

text \<open>
  The body of the loop of \<open>_callRender\<close> for one renderer: the renderer afterwards, and
  whether the loop went on to \<open>_updateShaderData\<close> and \<open>_render\<close> for it (which push
  its render elements) or left it with \<open>continue\<close>.
\<close>

definition sortKey :: "mathLib \<Rightarrow> camera \<Rightarrow> renderer \<Rightarrow> real" where
  "sortKey M cam rd =
     (let position = worldPosition cam;
          center = getCenter M (bounds rd)
      in if isOrthographic cam
         then (let forward = worldForward cam;
                   center' = subtract M center position
               in dot M center' forward)
         else distanceSquared M center position)"

definition callRenderOne :: "mathLib \<Rightarrow> camera \<Rightarrow> renderer \<Rightarrow> renderer \<times> bool" where
  "callRenderOne M cam rd =
     (if cullingMask cam AND layer rd = 0 then (rd, False)
      else if enableFrustumCulling cam
      then (let rd' = rd\<lparr>isCulled := \<not> intersectsBox M (frustum cam) (bounds rd)\<rparr>
            in if isCulled rd' then (rd', False)
               else (rd'\<lparr>distanceForSort := sortKey M cam rd'\<rparr>, True))
      else (rd\<lparr>distanceForSort := sortKey M cam rd\<rparr>, True))"

text \<open>
  The loop runs from the last renderer down to the first. \<open>callRenderFrom M cam n rs\<close> is
  the loop from position \<open>n - 1\<close> on; it returns the renderers afterwards and the
  positions of the renderers that were rendered, in the order of the calls.
\<close>

fun callRenderFrom ::
  "mathLib \<Rightarrow> camera \<Rightarrow> nat \<Rightarrow> renderer list \<Rightarrow> renderer list \<times> nat list" where
  "callRenderFrom M cam 0 rs = (rs, [])"
| "callRenderFrom M cam (Suc i) rs =
     (let (rd, rendered) = callRenderOne M cam (rs ! i);
          (rs', is) = callRenderFrom M cam i (rs[i := rd])
      in (rs', if rendered then i # is else is))"

definition callRender :: "mathLib \<Rightarrow> camera \<Rightarrow> renderer list \<Rightarrow> renderer list \<times> nat list" where
  "callRender M cam rs = callRenderFrom M cam (length rs) rs"

text \<open>A renderer passes the two checks of the loop.\<close>

definition passesChecks :: "mathLib \<Rightarrow> camera \<Rightarrow> renderer \<Rightarrow> bool" where
  "passesChecks M cam rd =
     (cullingMask cam AND layer rd \<noteq> 0 \<and>
      (if enableFrustumCulling cam then intersectsBox M (frustum cam) (bounds rd) else True))"

text \<open>
  Modelled from the spec: the math package is not among the sources. Vectors are
  triples of reals, subtraction is by component, the dot product is the sum of the
  products of the components and the squared distance is the dot product of the
  difference with itself. The centre of a box is the middle of its corners; the frustum
  of \<open>exactMath\<close> holds every box.
\<close>

fun Vector3_subtract :: "vec3 \<Rightarrow> vec3 \<Rightarrow> vec3" where
  "Vector3_subtract (ax, ay, az) (bx, by, bz) = (ax - bx, ay - by, az - bz)"

fun Vector3_dot :: "vec3 \<Rightarrow> vec3 \<Rightarrow> real" where
  "Vector3_dot (ax, ay, az) (bx, by, bz) = ax * bx + ay * by + az * bz"

definition Vector3_distanceSquared :: "vec3 \<Rightarrow> vec3 \<Rightarrow> real" where
  "Vector3_distanceSquared a b = Vector3_dot (Vector3_subtract a b) (Vector3_subtract a b)"

fun BoundingBox_getCenter :: "vec3 \<times> vec3 \<Rightarrow> vec3" where
  "BoundingBox_getCenter ((ax, ay, az), (bx, by, bz)) =
     ((ax + bx) / 2, (ay + by) / 2, (az + bz) / 2)"

definition exactMath :: mathLib where
  "exactMath =
     \<lparr>getCenter = BoundingBox_getCenter, intersectsBox = (\<lambda>f b. True),
      subtract = Vector3_subtract, dot = Vector3_dot,
      distanceSquared = Vector3_distanceSquared\<rparr>"

definition someRenderer :: renderer where
  "someRenderer =
     \<lparr>layer = 1, bounds = ((- 1, - 1, - 3), (1, 1, - 1)), isCulled = False,
      distanceForSort = 0\<rparr>"

section \<open>Numbers\<close>

text \<open>
  A number of JavaScript, as far as \<open><\<close> tells numbers apart: not a number, minus
  infinity, a finite value, or plus infinity. The two zeros are one value here, as they
  are for \<open><\<close>.
\<close>

datatype jsNumber = NaN | NEGATIVE_INFINITY | Finite real | POSITIVE_INFINITY

text \<open>The comparison \<open>x < y\<close> of two numbers. It is false when either is not a number.\<close>

fun jsLess :: "jsNumber \<Rightarrow> jsNumber \<Rightarrow> bool" where
  "jsLess NaN y = False"
| "jsLess x NaN = False"
| "jsLess x NEGATIVE_INFINITY = False"
| "jsLess POSITIVE_INFINITY y = False"
| "jsLess NEGATIVE_INFINITY y = True"
| "jsLess (Finite a) (Finite b) = (a < b)"
| "jsLess (Finite a) POSITIVE_INFINITY = True"

text \<open>
  The product of two numbers where no rounding takes place: the special values as IEEE
  754 has them, and the exact product of two finite values. It stands for \<open>*\<close> in the
  examples, whose finite products are small integers. What is proved of the program is
  proved for every product function.
\<close>

fun exactTimes :: "jsNumber \<Rightarrow> jsNumber \<Rightarrow> jsNumber" where
  "exactTimes NaN y = NaN"
| "exactTimes x NaN = NaN"
| "exactTimes (Finite a) (Finite b) = Finite (a * b)"
| "exactTimes (Finite a) POSITIVE_INFINITY =
     (if a = 0 then NaN else if 0 < a then POSITIVE_INFINITY else NEGATIVE_INFINITY)"
| "exactTimes (Finite a) NEGATIVE_INFINITY =
     (if a = 0 then NaN else if 0 < a then NEGATIVE_INFINITY else POSITIVE_INFINITY)"
| "exactTimes POSITIVE_INFINITY (Finite b) =
     (if b = 0 then NaN else if 0 < b then POSITIVE_INFINITY else NEGATIVE_INFINITY)"
| "exactTimes NEGATIVE_INFINITY (Finite b) =
     (if b = 0 then NaN else if 0 < b then NEGATIVE_INFINITY else POSITIVE_INFINITY)"
| "exactTimes POSITIVE_INFINITY POSITIVE_INFINITY = POSITIVE_INFINITY"
| "exactTimes POSITIVE_INFINITY NEGATIVE_INFINITY = NEGATIVE_INFINITY"
| "exactTimes NEGATIVE_INFINITY POSITIVE_INFINITY = NEGATIVE_INFINITY"
| "exactTimes NEGATIVE_INFINITY NEGATIVE_INFINITY = POSITIVE_INFINITY"

section \<open>The light manager\<close>

text \<open>
  Modelled from the spec: the container \<open>DisorderedArray\<close> is not among the sources.
  It is a growable sequence with \<open>add\<close> at the end and \<open>deleteByIndex\<close>, which moves
  the last element into the freed slot and returns the element it moved, or null when
  the freed slot was the last one. The spec does not say what \<open>deleteByIndex\<close> does
  with a position the container does not have; there the model has no result.
\<close>

definition DisorderedArray_add :: "'a \<Rightarrow> 'a list \<Rightarrow> 'a list" where
  "DisorderedArray_add x xs = xs @ [x]"

definition DisorderedArray_deleteByIndex ::
  "int \<Rightarrow> 'a list \<Rightarrow> ('a option \<times> 'a list) option" where
  "DisorderedArray_deleteByIndex index xs =
     (if 0 \<le> index \<and> index < int (length xs)
      then (if index = int (length xs) - 1
            then Some (None, butlast xs)
            else Some (Some (last xs), (butlast xs)[nat index := last xs]))
      else None)"

text \<open>
  Modelled from the spec: the enumeration \<open>ShadowType\<close> is not among the sources. Its
  members are numbers; \<open>None\<close> is the member for a light that casts no shadow.
\<close>

type_synonym shadowType = int

definition ShadowType_None :: shadowType where
  "ShadowType_None = 0"

text \<open>
  A light, with the fields the light manager and the scene read: the position the
  manager gave it, its shadow type, its intensity and the brightness of its colour
  (the value of \<open>color.getBrightness()\<close>). Intensity and brightness are numbers of
  JavaScript: \<open>intensity\<close> is a public field, which takes any number.
\<close>

record light =
  lightIndex :: int
  shadowType :: shadowType
  intensity :: jsNumber
  brightness :: jsNumber

record lightManager =
  spotLights :: "ref list"
  pointLights :: "ref list"
  directLights :: "ref list"

text \<open>
  Shader data, as far as the macros go: a macro that is enabled has a value, which is
  absent, a text or the decimal text of a number (kept as the number).
\<close>

datatype macroValue = NoValue | TextValue string | NumberValue int

record shaderData =
  macros :: "string \<rightharpoonup> macroValue"

text \<open>
  Modelled from the spec: \<open>ShaderData\<close> and \<open>ShaderMacroCollection\<close> are not among
  the sources. Enabling a macro by name gives it the value, disabling it by name removes
  it, and the union of two macro collections has the macros of both.
\<close>

definition enableMacro :: "string \<Rightarrow> macroValue \<Rightarrow> shaderData \<Rightarrow> shaderData" where
  "enableMacro n v sd = sd\<lparr>macros := (macros sd)(n \<mapsto> v)\<rparr>"

definition disableMacro :: "string \<Rightarrow> shaderData \<Rightarrow> shaderData" where
  "disableMacro n sd = sd\<lparr>macros := (macros sd)(n := None)\<rparr>"

definition unionCollection ::
  "(string \<times> macroValue) set \<Rightarrow> (string \<times> macroValue) set \<Rightarrow> (string \<times> macroValue) set" where
  "unionCollection a b = a \<union> b"

text \<open>
  The engine holds the light manager and, as the heap, the lights of each kind. A spot
  light, a point light and a directional light are objects of three classes, so each
  kind has a store of its own.
\<close>

record engine =
  lightManager :: lightManager
  spotStore :: "ref \<Rightarrow> light"
  pointStore :: "ref \<Rightarrow> light"
  directStore :: "ref \<Rightarrow> light"
  macroCollection :: "(string \<times> macroValue) set"

text \<open>
  The three attach methods have one body and the three detach methods have one body;
  \<open>attachTo\<close> and \<open>detachFrom\<close> are these bodies on a container and the store of its
  lights.
\<close>

definition attachTo :: "ref \<Rightarrow> ref list \<times> (ref \<Rightarrow> light) \<Rightarrow> ref list \<times> (ref \<Rightarrow> light)" where
  "attachTo l cs =
     (let (c, st) = cs;
          st' = st(l := (st l)\<lparr>lightIndex := int (length c)\<rparr>)
      in (DisorderedArray_add l c, st'))"

definition detachFrom ::
  "ref \<Rightarrow> ref list \<times> (ref \<Rightarrow> light) \<Rightarrow> (ref list \<times> (ref \<Rightarrow> light)) option" where
  "detachFrom l cs =
     (let (c, st) = cs in
      case DisorderedArray_deleteByIndex (lightIndex (st l)) c of
        None \<Rightarrow> None
      | Some (replaced, c') \<Rightarrow>
          (let st1 = (case replaced of
                        None \<Rightarrow> st
                      | Some r \<Rightarrow> st(r := (st r)\<lparr>lightIndex := lightIndex (st l)\<rparr>));
               st2 = st1(l := (st1 l)\<lparr>lightIndex := - 1\<rparr>)
           in Some (c', st2)))"

definition attachSpotLight :: "ref \<Rightarrow> engine \<Rightarrow> engine" where
  "attachSpotLight l e =
     (let (c, st) = attachTo l (spotLights (lightManager e), spotStore e)
      in e\<lparr>lightManager := (lightManager e)\<lparr>spotLights := c\<rparr>, spotStore := st\<rparr>)"

definition detachSpotLight :: "ref \<Rightarrow> engine \<Rightarrow> engine option" where
  "detachSpotLight l e =
     (case detachFrom l (spotLights (lightManager e), spotStore e) of
        None \<Rightarrow> None
      | Some (c, st) \<Rightarrow>
          Some (e\<lparr>lightManager := (lightManager e)\<lparr>spotLights := c\<rparr>, spotStore := st\<rparr>))"

definition attachPointLight :: "ref \<Rightarrow> engine \<Rightarrow> engine" where
  "attachPointLight l e =
     (let (c, st) = attachTo l (pointLights (lightManager e), pointStore e)
      in e\<lparr>lightManager := (lightManager e)\<lparr>pointLights := c\<rparr>, pointStore := st\<rparr>)"

definition detachPointLight :: "ref \<Rightarrow> engine \<Rightarrow> engine option" where
  "detachPointLight l e =
     (case detachFrom l (pointLights (lightManager e), pointStore e) of
        None \<Rightarrow> None
      | Some (c, st) \<Rightarrow>
          Some (e\<lparr>lightManager := (lightManager e)\<lparr>pointLights := c\<rparr>, pointStore := st\<rparr>))"

definition attachDirectLight :: "ref \<Rightarrow> engine \<Rightarrow> engine" where
  "attachDirectLight l e =
     (let (c, st) = attachTo l (directLights (lightManager e), directStore e)
      in e\<lparr>lightManager := (lightManager e)\<lparr>directLights := c\<rparr>, directStore := st\<rparr>)"

definition detachDirectLight :: "ref \<Rightarrow> engine \<Rightarrow> engine option" where
  "detachDirectLight l e =
     (case detachFrom l (directLights (lightManager e), directStore e) of
        None \<Rightarrow> None
      | Some (c, st) \<Rightarrow>
          Some (e\<lparr>lightManager := (lightManager e)\<lparr>directLights := c\<rparr>, directStore := st\<rparr>))"

text \<open>Calls on the light manager, one after the other.\<close>

datatype lightCall =
    AttachSpot ref | DetachSpot ref
  | AttachPoint ref | DetachPoint ref
  | AttachDirect ref | DetachDirect ref

fun lightCallOn :: "lightCall \<Rightarrow> engine \<Rightarrow> engine option" where
  "lightCallOn (AttachSpot l) e = Some (attachSpotLight l e)"
| "lightCallOn (DetachSpot l) e = detachSpotLight l e"
| "lightCallOn (AttachPoint l) e = Some (attachPointLight l e)"
| "lightCallOn (DetachPoint l) e = detachPointLight l e"
| "lightCallOn (AttachDirect l) e = Some (attachDirectLight l e)"
| "lightCallOn (DetachDirect l) e = detachDirectLight l e"

fun lightCalls :: "lightCall list \<Rightarrow> engine \<Rightarrow> engine option" where
  "lightCalls [] e = Some e"
| "lightCalls (c # cs) e =
     (case lightCallOn c e of None \<Rightarrow> None | Some e' \<Rightarrow> lightCalls cs e')"

text \<open>
  A light is attached when it is enabled and detached when it is disabled: the call is
  an attach of a light that is not in its container, or a detach of a light that is in
  it. A sequence of calls is an interleaving of such lives of lights when every call is
  one of these at the moment it is made.
\<close>

fun inTurn :: "lightCall \<Rightarrow> engine \<Rightarrow> bool" where
  "inTurn (AttachSpot l) e = (l \<notin> set (spotLights (lightManager e)))"
| "inTurn (DetachSpot l) e = (l \<in> set (spotLights (lightManager e)))"
| "inTurn (AttachPoint l) e = (l \<notin> set (pointLights (lightManager e)))"
| "inTurn (DetachPoint l) e = (l \<in> set (pointLights (lightManager e)))"
| "inTurn (AttachDirect l) e = (l \<notin> set (directLights (lightManager e)))"
| "inTurn (DetachDirect l) e = (l \<in> set (directLights (lightManager e)))"

fun interleaving :: "lightCall list \<Rightarrow> engine \<Rightarrow> bool" where
  "interleaving [] e = True"
| "interleaving (c # cs) e =
     (inTurn c e \<and> (case lightCallOn c e of None \<Rightarrow> True | Some e' \<Rightarrow> interleaving cs e'))"

text \<open>
  The invariant of a container: the light at each position has that position as its
  index, and a light that is not in the container has index -1.
\<close>

definition indexed :: "ref list \<Rightarrow> (ref \<Rightarrow> light) \<Rightarrow> bool" where
  "indexed c st =
     ((\<forall>i < length c. lightIndex (st (c ! i)) = int i) \<and>
      (\<forall>l. l \<notin> set c \<longrightarrow> lightIndex (st l) = - 1))"

definition registryInv :: "engine \<Rightarrow> bool" where
  "registryInv e =
     (indexed (spotLights (lightManager e)) (spotStore e) \<and>
      indexed (pointLights (lightManager e)) (pointStore e) \<and>
      indexed (directLights (lightManager e)) (directStore e))"

definition newLight :: light where
  "newLight = \<lparr>lightIndex = - 1, shadowType = ShadowType_None, intensity = Finite 1,
      brightness = Finite 1\<rparr>"

definition newEngine :: engine where
  "newEngine =
     \<lparr>lightManager = \<lparr>spotLights = [], pointLights = [], directLights = []\<rparr>,
      spotStore = (\<lambda>_. newLight), pointStore = (\<lambda>_. newLight),
      directStore = (\<lambda>_. newLight), macroCollection = {}\<rparr>"

section \<open>The sun light\<close>

text \<open>
  The state of the loop of \<open>_getSunLightIndex\<close>. The running maximum starts at
  \<open>Number.NEGATIVE_INFINITY\<close>.
\<close>

record sunScan =
  sunLightIndex :: int
  maxIntensity :: jsNumber
  hasShadowLight :: bool

text \<open>
  The body of the loop for the light at position \<open>i\<close>. The product of two numbers is the
  parameter \<open>multiply\<close>, so that what is proved holds for the product as the machine rounds
  it. The intensity and the brightness are whatever numbers the light holds: \<open>intensity\<close>
  is a field anyone can assign.
\<close>

definition sunStep ::
  "(jsNumber \<Rightarrow> jsNumber \<Rightarrow> jsNumber) \<Rightarrow> light \<Rightarrow> int \<Rightarrow> sunScan \<Rightarrow> sunScan" where
  "sunStep multiply directLight i s =
     (let s1 = (if shadowType directLight \<noteq> ShadowType_None \<and> \<not> hasShadowLight s
                then s\<lparr>maxIntensity := NEGATIVE_INFINITY, hasShadowLight := True\<rparr>
                else s);
          x = multiply (intensity directLight) (brightness directLight)
      in if hasShadowLight s1
         then (if shadowType directLight \<noteq> ShadowType_None \<and> jsLess (maxIntensity s1) x
               then s1\<lparr>maxIntensity := x, sunLightIndex := i\<rparr>
               else s1)
         else (if jsLess (maxIntensity s1) x
               then s1\<lparr>maxIntensity := x, sunLightIndex := i\<rparr>
               else s1))"

fun sunLoop ::
  "(jsNumber \<Rightarrow> jsNumber \<Rightarrow> jsNumber) \<Rightarrow> light list \<Rightarrow> int \<Rightarrow> sunScan \<Rightarrow> sunScan" where
  "sunLoop multiply [] i s = s"
| "sunLoop multiply (l # ls) i s = sunLoop multiply ls (i + 1) (sunStep multiply l i s)"

definition sunStart :: sunScan where
  "sunStart = \<lparr>sunLightIndex = - 1, maxIntensity = NEGATIVE_INFINITY, hasShadowLight = False\<rparr>"

text \<open>\<open>sunIndexOf\<close> is the loop on the directional lights in the order of the container.\<close>

definition sunIndexOf :: "(jsNumber \<Rightarrow> jsNumber \<Rightarrow> jsNumber) \<Rightarrow> light list \<Rightarrow> int" where
  "sunIndexOf multiply ls = sunLightIndex (sunLoop multiply ls 0 sunStart)"

definition getSunLightIndex :: "(jsNumber \<Rightarrow> jsNumber \<Rightarrow> jsNumber) \<Rightarrow> engine \<Rightarrow> int" where
  "getSunLightIndex multiply e =
     sunIndexOf multiply (map (directStore e) (directLights (lightManager e)))"

text \<open>
  The words of the specification. A light casts shadows when its shadow type is not
  \<open>None\<close>. The tier that wins is the shadow-casting lights when there is one, and all
  lights otherwise. \<open>product\<close> is the intensity times the brightness of the colour.
\<close>

definition casts :: "light \<Rightarrow> bool" where
  "casts l = (shadowType l \<noteq> ShadowType_None)"

definition product :: "(jsNumber \<Rightarrow> jsNumber \<Rightarrow> jsNumber) \<Rightarrow> light \<Rightarrow> jsNumber" where
  "product multiply l = multiply (intensity l) (brightness l)"

definition inTier :: "light list \<Rightarrow> nat \<Rightarrow> bool" where
  "inTier ls i = (i < length ls \<and> (if list_ex casts ls then casts (ls ! i) else True))"

text \<open>
  A product can win when it is greater than minus infinity: a finite number or plus
  infinity. \<open>hasCandidate\<close>: some light of the winning tier has such a product.
\<close>

definition canWin :: "jsNumber \<Rightarrow> bool" where
  "canWin x = jsLess NEGATIVE_INFINITY x"

definition hasCandidate :: "(jsNumber \<Rightarrow> jsNumber \<Rightarrow> jsNumber) \<Rightarrow> light list \<Rightarrow> bool" where
  "hasCandidate multiply ls =
     list_ex (\<lambda>l. (if list_ex casts ls then casts l else True) \<and> canWin (product multiply l)) ls"

text \<open>
  The light at \<open>k\<close> is the sun among \<open>ls\<close>: it is in the winning tier, its product can
  win, no light of the tier has a greater product, and no light of the tier before it
  has the same product.
\<close>

definition isSunOf :: "(jsNumber \<Rightarrow> jsNumber \<Rightarrow> jsNumber) \<Rightarrow> light list \<Rightarrow> nat \<Rightarrow> bool" where
  "isSunOf multiply ls k =
     (inTier ls k \<and> canWin (product multiply (ls ! k)) \<and>
      (\<forall>j. inTier ls j \<longrightarrow> \<not> jsLess (product multiply (ls ! k)) (product multiply (ls ! j))) \<and>
      (\<forall>j. inTier ls j \<and> j < k \<longrightarrow> product multiply (ls ! j) \<noteq> product multiply (ls ! k)))"

text \<open>
  An index that is no sun: -1, or, when some light casts shadows, the position of a
  light that casts none.
\<close>

definition noShadowIndex :: "light list \<Rightarrow> int \<Rightarrow> bool" where
  "noShadowIndex ls i =
     (i = - 1 \<or> (list_ex casts ls \<and> 0 \<le> i \<and> i < int (length ls) \<and> \<not> casts (ls ! nat i)))"

section \<open>Shader data of the light manager and of the scene\<close>

text \<open>
  \<open>LightManager._updateShaderData\<close>: the loops over the lights and the static
  \<open>_updateShaderData\<close> of each class write light data, not macros; the count macro of a
  kind is enabled with the count, or disabled when the count is zero.
\<close>

definition countMacro :: "string \<Rightarrow> nat \<Rightarrow> shaderData \<Rightarrow> shaderData" where
  "countMacro n count sd =
     (if count \<noteq> 0 then enableMacro n (NumberValue (int count)) sd else disableMacro n sd)"

definition LightManager_updateShaderData :: "lightManager \<Rightarrow> shaderData \<Rightarrow> shaderData" where
  "LightManager_updateShaderData lm sd =
     (let spotLightCount = length (spotLights lm);
          pointLightCount = length (pointLights lm);
          directLightCount = length (directLights lm);
          sd1 = countMacro ''O3_DIRECT_LIGHT_COUNT'' directLightCount sd;
          sd2 = countMacro ''O3_POINT_LIGHT_COUNT'' pointLightCount sd1
      in countMacro ''O3_SPOT_LIGHT_COUNT'' spotLightCount sd2)"

text \<open>
  The scene. Its root entities are references into the store of entities; \<open>sunLight\<close>
  is the cached \<open>_sunLight\<close>, undefined for a new scene.
\<close>

record scene =
  rootEntities :: "ref list"
  isActiveInEngine :: bool
  castShadows :: bool
  sunLight :: "ref option"
  sceneShaderData :: shaderData
  globalShaderMacro :: "(string \<times> macroValue) set"

definition Scene_updateShaderData ::
  "(jsNumber \<Rightarrow> jsNumber \<Rightarrow> jsNumber) \<Rightarrow> engine \<Rightarrow> scene \<Rightarrow> scene" where
  "Scene_updateShaderData multiply e sc =
     (let lm = lightManager e;
          sd1 = LightManager_updateShaderData lm (sceneShaderData sc);
          index = getSunLightIndex multiply e;
          sun = (if index \<noteq> - 1 then Some (directLights lm ! nat index) else sunLight sc);
          sd2 = (case sun of
                   None \<Rightarrow> disableMacro ''CASCADED_SHADOW_MAP'' sd1
                 | Some r \<Rightarrow>
                     if castShadows sc \<and> shadowType (directStore e r) \<noteq> ShadowType_None
                     then enableMacro ''SHADOW_MODE'' (NumberValue (shadowType (directStore e r)))
                            (enableMacro ''CASCADED_SHADOW_MAP'' NoValue sd1)
                     else disableMacro ''CASCADED_SHADOW_MAP'' sd1)
      in sc\<lparr>sunLight := sun, sceneShaderData := sd2,
            globalShaderMacro := unionCollection (macroCollection e) (Map.graph (macros sd2))\<rparr>)"

definition newScene :: scene where
  "newScene =
     \<lparr>rootEntities = [], isActiveInEngine = False, castShadows = True, sunLight = None,
      sceneShaderData = \<lparr>macros = Map.empty\<rparr>, globalShaderMacro = {}\<rparr>"

text \<open>
  What a call has done when it has returned, from the engine \<open>e\<close> before the call to
  the engine \<open>e'\<close> after it. An attach has put the light at the end of its container,
  with the position as its index. A detach has taken the light, and nothing else, out of
  its container and has set its index to -1. The containers and the lights of the two
  other kinds are as before.
\<close>

fun carriedOut :: "lightCall \<Rightarrow> engine \<Rightarrow> engine \<Rightarrow> bool" where
  "carriedOut (AttachSpot l) e e' =
     (spotLights (lightManager e') = spotLights (lightManager e) @ [l]
      \<and> lightIndex (spotStore e' l) = int (length (spotLights (lightManager e)))
      \<and> pointLights (lightManager e') = pointLights (lightManager e)
      \<and> directLights (lightManager e') = directLights (lightManager e)
      \<and> pointStore e' = pointStore e \<and> directStore e' = directStore e)"
| "carriedOut (DetachSpot l) e e' =
     (set (spotLights (lightManager e')) = set (spotLights (lightManager e)) - {l}
      \<and> lightIndex (spotStore e' l) = - 1
      \<and> pointLights (lightManager e') = pointLights (lightManager e)
      \<and> directLights (lightManager e') = directLights (lightManager e)
      \<and> pointStore e' = pointStore e \<and> directStore e' = directStore e)"
| "carriedOut (AttachPoint l) e e' =
     (pointLights (lightManager e') = pointLights (lightManager e) @ [l]
      \<and> lightIndex (pointStore e' l) = int (length (pointLights (lightManager e)))
      \<and> spotLights (lightManager e') = spotLights (lightManager e)
      \<and> directLights (lightManager e') = directLights (lightManager e)
      \<and> spotStore e' = spotStore e \<and> directStore e' = directStore e)"
| "carriedOut (DetachPoint l) e e' =
     (set (pointLights (lightManager e')) = set (pointLights (lightManager e)) - {l}
      \<and> lightIndex (pointStore e' l) = - 1
      \<and> spotLights (lightManager e') = spotLights (lightManager e)
      \<and> directLights (lightManager e') = directLights (lightManager e)
      \<and> spotStore e' = spotStore e \<and> directStore e' = directStore e)"
| "carriedOut (AttachDirect l) e e' =
     (directLights (lightManager e') = directLights (lightManager e) @ [l]
      \<and> lightIndex (directStore e' l) = int (length (directLights (lightManager e)))
      \<and> spotLights (lightManager e') = spotLights (lightManager e)
      \<and> pointLights (lightManager e') = pointLights (lightManager e)
      \<and> spotStore e' = spotStore e \<and> pointStore e' = pointStore e)"
| "carriedOut (DetachDirect l) e e' =
     (set (directLights (lightManager e')) = set (directLights (lightManager e)) - {l}
      \<and> lightIndex (directStore e' l) = - 1
      \<and> spotLights (lightManager e') = spotLights (lightManager e)
      \<and> pointLights (lightManager e') = pointLights (lightManager e)
      \<and> spotStore e' = spotStore e \<and> pointStore e' = pointStore e)"

text \<open>Some calls to try the definitions on.\<close>

definition moreLightCalls :: "lightCall list" where
  "moreLightCalls =
     [AttachDirect 1, AttachDirect 2, AttachSpot 1, AttachDirect 3, DetachDirect 1,
      AttachPoint 7, AttachPoint 8, DetachSpot 1, DetachPoint 7, DetachDirect 3]"

text \<open>The lights of the directional container, in its order.\<close>

definition directLightsOf :: "engine \<Rightarrow> light list" where
  "directLightsOf e = map (directStore e) (directLights (lightManager e))"

text \<open>
  What the loop of \<open>_getSunLightIndex\<close> has found after the lights \<open>pre\<close>: whether one
  of them casts shadows; the sun among them with its product as the maximum, when a
  light of the tier has a product that can win; and otherwise the maximum it started
  with, and an index that is no sun.
\<close>

definition scanInv ::
  "(jsNumber \<Rightarrow> jsNumber \<Rightarrow> jsNumber) \<Rightarrow> light list \<Rightarrow> sunScan \<Rightarrow> bool" where
  "scanInv multiply pre s =
     (hasShadowLight s = list_ex casts pre \<and>
      (if hasCandidate multiply pre
       then (\<exists>k. sunLightIndex s = int k \<and> isSunOf multiply pre k
                \<and> maxIntensity s = product multiply (pre ! k))
       else maxIntensity s = NEGATIVE_INFINITY \<and> noShadowIndex pre (sunLightIndex s)))"

text \<open>
  An engine with two directional lights: the first casts no shadow and has intensity
  100, the second casts shadows and has intensity 1. An engine with two directional
  lights of which the first casts no shadow and has intensity 1, and the second casts
  shadows and has an intensity that is not a number. An engine whose one directional
  light has an intensity that is not a number. And an engine with no light in the
  manager, while the directional light 5, which casts shadows, is still in the heap.
\<close>

definition sunEngine :: engine where
  "sunEngine =
     newEngine
       \<lparr>lightManager := \<lparr>spotLights = [], pointLights = [], directLights = [1, 2]\<rparr>,
        directStore := (\<lambda>r. if r = 1 then newLight\<lparr>lightIndex := 0, intensity := Finite 100\<rparr>
                             else if r = 2 then newLight\<lparr>lightIndex := 1, shadowType := 1\<rparr>
                             else newLight)\<rparr>"

definition nanEngine :: engine where
  "nanEngine =
     newEngine
       \<lparr>lightManager := \<lparr>spotLights = [], pointLights = [], directLights = [1, 2]\<rparr>,
        directStore := (\<lambda>r. if r = 1 then newLight\<lparr>lightIndex := 0\<rparr>
                             else if r = 2
                             then newLight\<lparr>lightIndex := 1, shadowType := 1, intensity := NaN\<rparr>
                             else newLight)\<rparr>"

definition loneEngine :: engine where
  "loneEngine =
     newEngine
       \<lparr>lightManager := \<lparr>spotLights = [], pointLights = [], directLights = [1]\<rparr>,
        directStore := (\<lambda>r. if r = 1 then newLight\<lparr>lightIndex := 0, intensity := NaN\<rparr>
                             else newLight)\<rparr>"

definition darkEngine :: engine where
  "darkEngine =
     newEngine\<lparr>directStore := (\<lambda>r. if r = 5 then newLight\<lparr>shadowType := 1\<rparr> else newLight)\<rparr>"

section \<open>Entities and the root entities of a scene\<close>

text \<open>
  The index that a caller gives to \<open>addRootEntity\<close> and the sibling index that an entity
  holds are numbers of JavaScript. \<open>addRootEntity\<close> stores the index as it is given.
  Here such a number is an integer or not a number (\<open>NaN\<close>). \<open>toInteger\<close> is the
  position \<open>splice\<close> reads from it (0 for \<open>NaN\<close>); \<open>numberPlus\<close> is \<open>++\<close> and \<open>--\<close>.
\<close>

datatype indexNumber = Integer int | NotANumber

fun toInteger :: "indexNumber \<Rightarrow> int" where
  "toInteger (Integer i) = i"
| "toInteger NotANumber = 0"

fun numberPlus :: "int \<Rightarrow> indexNumber \<Rightarrow> indexNumber" where
  "numberPlus d (Integer i) = Integer (i + d)"
| "numberPlus d NotANumber = NotANumber"

text \<open>\<open>negative n\<close> is the comparison \<open>n < 0\<close>, which is false when \<open>n\<close> is not a number.\<close>

fun negative :: "indexNumber \<Rightarrow> bool" where
  "negative (Integer i) = (i < 0)"
| "negative NotANumber = False"

text \<open>
  An entity, with the fields the scene reads and writes. \<open>name\<close> is absent for an
  entity whose name is undefined or null (an entity can be created without a name).
  \<open>scene\<close> is the owning scene
  \<open>_scene\<close> (null for an entity in no scene), \<open>parent\<close> and \<open>children\<close> are the links of
  the hierarchy.
\<close>

record entity =
  name :: "string option"
  isRoot :: bool
  scene :: "ref option"
  siblingIndex :: indexNumber
  parent :: "ref option"
  children :: "ref list"
  isActive :: bool
  isActiveInHierarchy :: bool

text \<open>The heap: the scenes and the entities, by reference.\<close>

record world =
  scenes :: "ref \<Rightarrow> scene"
  entities :: "ref \<Rightarrow> entity"

abbreviation roots :: "world \<Rightarrow> ref \<Rightarrow> ref list" where
  "roots w s \<equiv> rootEntities (scenes w s)"

definition setRoots :: "ref \<Rightarrow> ref list \<Rightarrow> world \<Rightarrow> world" where
  "setRoots s xs w = w\<lparr>scenes := (scenes w)(s := (scenes w s)\<lparr>rootEntities := xs\<rparr>)\<rparr>"

definition setSiblingIndex :: "ref \<Rightarrow> indexNumber \<Rightarrow> world \<Rightarrow> world" where
  "setSiblingIndex x i w =
     w\<lparr>entities := (entities w)(x := (entities w x)\<lparr>siblingIndex := i\<rparr>)\<rparr>"

text \<open>
  A method either returns or throws; either way the heap is as the method left it. The
  errors are the string thrown for an index out of bounds (with the index and the count
  of root entities) and the \<open>TypeError\<close> of reading a field of \<open>undefined\<close>.
\<close>

datatype error = OutOfBounds int nat | TypeError

type_synonym outcome = "error option \<times> world"

definition andThen :: "outcome \<Rightarrow> (world \<Rightarrow> outcome) \<Rightarrow> outcome" where
  "andThen r f = (case r of (Some err, w) \<Rightarrow> (Some err, w) | (None, w) \<Rightarrow> f w)"

text \<open>
  The two loops over the tail of the root entities: each entity of \<open>xs\<close>, in order,
  has \<open>d\<close> added to its sibling index.
\<close>

fun shiftSiblings :: "int \<Rightarrow> ref list \<Rightarrow> (ref \<Rightarrow> entity) \<Rightarrow> (ref \<Rightarrow> entity)" where
  "shiftSiblings d [] es = es"
| "shiftSiblings d (x # xs) es =
     shiftSiblings d xs (es(x := (es x)\<lparr>siblingIndex := numberPlus d (siblingIndex (es x))\<rparr>))"

text \<open>
  \<open>_removeFromEntityList\<close>. After the splice the loop starts at \<open>index\<close>; with a
  negative \<open>index\<close> its first step reads \<open>rootEntities[index]\<close>, which is undefined, and
  the decrement of its field throws. With an \<open>index\<close> that is not a number the splice
  deletes at position 0 and the loop, whose condition \<open>index < n\<close> is false, does not
  run.
\<close>

definition removeFromEntityList :: "ref \<Rightarrow> ref \<Rightarrow> world \<Rightarrow> outcome" where
  "removeFromEntityList sc x w =
     (let index = siblingIndex (entities w x);
          rootEntities' = spliceDelete (toInteger index) (roots w sc);
          w1 = setRoots sc rootEntities' w
      in case index of
           NotANumber \<Rightarrow> (None, setSiblingIndex x (Integer (- 1)) w1)
         | Integer i \<Rightarrow>
             if i < 0 then (Some TypeError, w1)
             else (let w2 = w1\<lparr>entities :=
                              shiftSiblings (- 1) (drop (nat i) rootEntities') (entities w1)\<rparr>
                   in (None, setSiblingIndex x (Integer (- 1)) w2)))"

text \<open>
  \<open>_addToRootEntityList\<close>; the index is absent when the caller gives none. Of an index
  that is not a number neither comparison of the bounds check is true, so nothing is
  thrown: the index is stored as the sibling index, the splice inserts at position 0,
  and the loop, which starts at \<open>index + 1\<close>, does not run.
\<close>

definition addToRootEntityList ::
  "ref \<Rightarrow> indexNumber option \<Rightarrow> ref \<Rightarrow> world \<Rightarrow> outcome" where
  "addToRootEntityList sc index rootEntity w =
     (let rootEntityCount = length (roots w sc)
      in case index of
           None \<Rightarrow>
             (None, setRoots sc (roots w sc @ [rootEntity])
                      (setSiblingIndex rootEntity (Integer (int rootEntityCount)) w))
         | Some NotANumber \<Rightarrow>
             (let w1 = setSiblingIndex rootEntity NotANumber w;
                  rootEntities' = spliceInsert (toInteger NotANumber) rootEntity (roots w1 sc)
              in (None, setRoots sc rootEntities' w1))
         | Some (Integer i) \<Rightarrow>
             if i < 0 \<or> i > int rootEntityCount
             then (Some (OutOfBounds i rootEntityCount), w)
             else (let w1 = setSiblingIndex rootEntity (Integer i) w;
                       rootEntities' = spliceInsert i rootEntity (roots w1 sc);
                       w2 = setRoots sc rootEntities' w1
                   in (None, w2\<lparr>entities :=
                                shiftSiblings 1 (drop (nat (i + 1)) rootEntities')
                                  (entities w2)\<rparr>)))"

text \<open>
  Modelled from the spec: the class \<open>Entity\<close> is not among the sources.
  \<open>reaches P w x y\<close>: \<open>y\<close> is \<open>x\<close> or is reached from \<open>x\<close> through children that
  satisfy \<open>P\<close>. \<open>_removeFromParent\<close> detaches the entity from its parent, if it has
  one (the spec does not say what becomes of the sibling indices under the former
  parent; they are left). \<open>_traverseSetOwnerScene\<close> sets the owning scene of the
  entity and of all its descendants. \<open>_processActive\<close> makes the entity active in the
  hierarchy and with it the descendants it reaches through active children;
  \<open>_processInActive\<close> makes the entity inactive in the hierarchy and with it the
  descendants it reaches through children that are active in the hierarchy.
\<close>

inductive reaches :: "(entity \<Rightarrow> bool) \<Rightarrow> world \<Rightarrow> ref \<Rightarrow> ref \<Rightarrow> bool"
  for P :: "entity \<Rightarrow> bool" and w :: world and x :: ref where
  here: "reaches P w x x"
| child: "reaches P w x y \<Longrightarrow> z \<in> set (children (entities w y)) \<Longrightarrow> P (entities w z) \<Longrightarrow>
          reaches P w x z"

definition Entity_removeFromParent :: "ref \<Rightarrow> world \<Rightarrow> world" where
  "Entity_removeFromParent x w =
     (case parent (entities w x) of
        None \<Rightarrow> w
      | Some p \<Rightarrow>
          (let es1 = (entities w)(p := (entities w p)
                        \<lparr>children := removeAll x (children (entities w p))\<rparr>)
           in w\<lparr>entities := es1(x := (es1 x)\<lparr>parent := None\<rparr>)\<rparr>))"

definition Entity_traverseSetOwnerScene :: "ref \<Rightarrow> ref option \<Rightarrow> world \<Rightarrow> world" where
  "Entity_traverseSetOwnerScene x sc w =
     w\<lparr>entities := (\<lambda>y. if reaches (\<lambda>_. True) w x y
                          then (entities w y)\<lparr>scene := sc\<rparr> else entities w y)\<rparr>"

definition Entity_processActive :: "ref \<Rightarrow> world \<Rightarrow> world" where
  "Entity_processActive x w =
     w\<lparr>entities := (\<lambda>y. if reaches isActive w x y
                          then (entities w y)\<lparr>isActiveInHierarchy := True\<rparr>
                          else entities w y)\<rparr>"

definition Entity_processInActive :: "ref \<Rightarrow> world \<Rightarrow> world" where
  "Entity_processInActive x w =
     w\<lparr>entities := (\<lambda>y. if reaches isActiveInHierarchy w x y
                          then (entities w y)\<lparr>isActiveInHierarchy := False\<rparr>
                          else entities w y)\<rparr>"

text \<open>The last part of \<open>addRootEntity\<close>: the entity is made active or inactive.\<close>

definition processEntityActive :: "ref \<Rightarrow> ref \<Rightarrow> world \<Rightarrow> world" where
  "processEntityActive sc x w =
     (if isActiveInEngine (scenes w sc)
      then (if \<not> isActiveInHierarchy (entities w x) \<and> isActive (entities w x)
            then Entity_processActive x w else w)
      else (if isActiveInHierarchy (entities w x) then Entity_processInActive x w else w))"

definition addRootEntity ::
  "ref \<Rightarrow> indexNumber option \<Rightarrow> ref \<Rightarrow> world \<Rightarrow> outcome" where
  "addRootEntity sc index x w =
     (let wasRoot = isRoot (entities w x);
          w1 = (if \<not> wasRoot
                then Entity_removeFromParent x
                       (w\<lparr>entities := (entities w)(x := (entities w x)\<lparr>isRoot := True\<rparr>)\<rparr>)
                else w);
          oldScene = scene (entities w1 x)
      in if oldScene \<noteq> Some sc
         then andThen
                (case oldScene of
                   Some old \<Rightarrow> if wasRoot then removeFromEntityList old x w1 else (None, w1)
                 | None \<Rightarrow> (None, w1))
                (\<lambda>w2. andThen (addToRootEntityList sc index x w2)
                   (\<lambda>w3. (None, processEntityActive sc x
                                   (Entity_traverseSetOwnerScene x (Some sc) w3))))
         else if \<not> wasRoot
         then andThen (addToRootEntityList sc index x w1)
                (\<lambda>w3. (None, processEntityActive sc x w3))
         else (None, processEntityActive sc x w1))"








text \<open>A new entity, and a heap of new scenes and new entities.\<close>

definition newEntity :: entity where
  "newEntity =
     \<lparr>name = None, isRoot = False, scene = None, siblingIndex = Integer (- 1), parent = None,
      children = [], isActive = True, isActiveInHierarchy = False\<rparr>"


section \<open>Finding an entity by its path\<close>

text \<open>\<open>path.split("/")\<close>: the pieces between the separators, empty pieces included.\<close>

fun split :: "char \<Rightarrow> string \<Rightarrow> string list" where
  "split c [] = [[]]"
| "split c (x # xs) =
     (if x = c then [] # split c xs
      else (case split c xs of [] \<Rightarrow> [[x]] | y # ys \<Rightarrow> (x # y) # ys))"

text \<open>
  Modelled from the spec: \<open>Entity._findChildByName\<close> is not among the sources. It
  returns a child of the entity that has the name, or null when there is none; the spec
  does not say which child when several have the name, and the model takes the first.
  A child without a name has no name to match.
\<close>

definition Entity_findChildByName :: "world \<Rightarrow> ref \<Rightarrow> string \<Rightarrow> ref option" where
  "Entity_findChildByName w x n =
     find (\<lambda>c. name (entities w c) = Some n) (children (entities w x))"

text \<open>
  The inner loop of \<open>findEntityByPath\<close> over the segments after the first, with its
  \<open>break\<close> when a child is not found.
\<close>

fun walkPath :: "world \<Rightarrow> string list \<Rightarrow> ref \<Rightarrow> ref option" where
  "walkPath w [] findEntity = Some findEntity"
| "walkPath w (seg # segs) findEntity =
     (case Entity_findChildByName w findEntity seg of
        None \<Rightarrow> None
      | Some c \<Rightarrow> walkPath w segs c)"

text \<open>
  The outer loop over the root entities. \<open>splits[0]\<close> is undefined when there is no
  segment. The comparison \<open>findEntity.name != splits[0]\<close> is the loose one: a name that
  is undefined or null is equal to undefined, and a name that is a string is equal to a
  segment when it is the same string.
\<close>

fun findFromRoots :: "world \<Rightarrow> string list \<Rightarrow> ref list \<Rightarrow> ref option" where
  "findFromRoots w splits [] = None"
| "findFromRoots w splits (r # rs) =
     (if name (entities w r) \<noteq> (case splits of [] \<Rightarrow> None | s # _ \<Rightarrow> Some s)
      then findFromRoots w splits rs
      else walkPath w (tl splits) r)"

definition findEntityByPath :: "world \<Rightarrow> ref \<Rightarrow> string \<Rightarrow> ref option" where
  "findEntityByPath w sc path =
     (let splits = filter (\<lambda>s. s \<noteq> []) (split CHR ''/'' path)
      in findFromRoots w splits (roots w sc))"

text \<open>
  The words of the specification: the path is split on the separator and empty segments
  are discarded; the first segment is matched against the names of the root entities in
  forward order; each remaining segment is resolved as the name of a child; the result is
  none as soon as a segment does not resolve.
\<close>

definition segmentsOf :: "string \<Rightarrow> string list" where
  "segmentsOf path = filter (\<lambda>s. s \<noteq> []) (split CHR ''/'' path)"

definition resolveChildren :: "world \<Rightarrow> string list \<Rightarrow> ref option \<Rightarrow> ref option" where
  "resolveChildren w segs start =
     fold (\<lambda>seg cur. Option.bind cur (\<lambda>x. Entity_findChildByName w x seg)) segs start"

definition resolvePath :: "world \<Rightarrow> ref \<Rightarrow> string \<Rightarrow> ref option" where
  "resolvePath w sc path =
     (case segmentsOf path of
        [] \<Rightarrow> None
      | first # others \<Rightarrow>
          resolveChildren w others
            (find (\<lambda>r. name (entities w r) = Some first) (roots w sc)))"

text \<open>
  A scene 0 with the root entities 1 (named A) and 4 (named D); A has the child 2 (named
  B), and B has the child 3 (named C).
\<close>

definition abcWorld :: world where
  "abcWorld =
     \<lparr>scenes = (\<lambda>s. if s = 0 then newScene\<lparr>rootEntities := [1, 4]\<rparr> else newScene),
      entities =
        (\<lambda>x. if x = 1 then newEntity\<lparr>name := Some ''A'', isRoot := True, scene := Some 0,
                                      siblingIndex := Integer 0, children := [2]\<rparr>
              else if x = 2 then newEntity\<lparr>name := Some ''B'', scene := Some 0, siblingIndex := Integer 0,
                                           parent := Some 1, children := [3]\<rparr>
              else if x = 3 then newEntity\<lparr>name := Some ''C'', scene := Some 0, siblingIndex := Integer 0,
                                           parent := Some 2\<rparr>
              else if x = 4 then newEntity\<lparr>name := Some ''D'', isRoot := True, scene := Some 0,
                                           siblingIndex := Integer 1\<rparr>
              else newEntity)\<rparr>"

text \<open>
  A scene 0 with the root entities 5, created without a name, and 6, named A.
\<close>

definition namelessWorld :: world where
  "namelessWorld =
     \<lparr>scenes = (\<lambda>s. if s = 0 then newScene\<lparr>rootEntities := [5, 6]\<rparr> else newScene),
      entities =
        (\<lambda>x. if x = 5 then newEntity\<lparr>isRoot := True, scene := Some 0, siblingIndex := Integer 0\<rparr>
              else if x = 6 then newEntity\<lparr>name := Some ''A'', isRoot := True,
                                           scene := Some 0, siblingIndex := Integer 1\<rparr>
              else newEntity)\<rparr>"






section \<open>Facts about the array operations\<close>

lemma indexOf_absent: "x \<notin> set xs \<Longrightarrow> indexOf xs x = -1"
  by (induction xs) auto

lemma indexOf_ge: "- 1 \<le> indexOf xs x"
  by (induction xs) (auto simp: Let_def)

lemma indexOf_present: "x \<in> set xs \<Longrightarrow> 0 \<le> indexOf xs x \<and> indexOf xs x < int (length xs)"
proof (induction xs)
  case Nil
  then show ?case by simp
next
  case (Cons y ys)
  show ?case
  proof (cases "y = x")
    case True
    then show ?thesis by simp
  next
    case False
    with Cons.prems have "x \<in> set ys" by simp
    from Cons.IH [OF this] False show ?thesis by (simp add: Let_def)
  qed
qed

lemma spliceDelete_minus_one: "spliceDelete (- 1) xs = butlast xs"
proof (cases "xs = []")
  case True
  then show ?thesis by (simp add: spliceDelete_def spliceStart_def)
next
  case False
  then have len: "0 < length xs" by simp
  then have k: "spliceStart (- 1) (length xs) = length xs - 1"
    by (simp add: spliceStart_def)
  from len have "Suc (length xs - 1) = length xs" by simp
  with k show ?thesis
    by (simp add: spliceDelete_def butlast_conv_take)
qed

lemma getRenderPassIn_absent:
  "\<forall>r \<in> set rs. passName (st r) \<noteq> n \<Longrightarrow> getRenderPassIn st rs n = None"
  by (induction rs) auto

section \<open>Removing a render pass\<close>

lemma removeRenderPass_unknown_name:
  "\<forall>r \<in> set (renderPassArray p). passName (passStore p r) \<noteq> n \<Longrightarrow>
   removeRenderPass (Name n) p = p"
  by (simp add: removeRenderPass_def getRenderPass_def getRenderPassIn_absent)

lemma removeRenderPass_absent_object:
  "r \<notin> set (renderPassArray p) \<Longrightarrow>
   renderPassArray (removeRenderPass (Pass r) p) = butlast (renderPassArray p)"
  by (simp add: removeRenderPass_def indexOf_absent spliceDelete_minus_one)

text \<open>
  Claim C4. Removing a pass that is not in the pipeline should leave the pass array as
  it is. For a name that no pass has this is so (\<open>removeRenderPass_unknown_name\<close>). For
  a pass object that is not in the array it is not: \<open>indexOf\<close> returns -1 and
  \<open>splice(-1, 1)\<close> deletes the last pass. On the pipeline a camera starts with, removing
  the pass object with reference 1, which was never added, deletes the default pass.
\<close>

theorem removeRenderPass_absent_object_drops_last:
  "renderPassArray newPipeline = [0] \<and>
   1 \<notin> set (renderPassArray newPipeline) \<and>
   renderPassArray (removeRenderPass (Pass 1) newPipeline) = []"
  by (simp add: newPipeline_def addRenderPass_def removeRenderPass_def
      spliceDelete_def spliceStart_def)

section \<open>What a pass binds, clears and draws\<close>

lemma isBind_onTarget_info:
  "filter isBind (onTarget rt (\<lambda>t. SetRenderTargetInfo t c m)) = []"
  by (cases rt) (simp_all add: onTarget_def)

lemma isBind_onTarget_blit: "filter isBind (onTarget rt BlitRenderTarget) = []"
  by (cases rt) (simp_all add: onTarget_def)

lemma isBind_onTarget_mips: "filter isBind (onTarget rt GenerateMipmaps) = []"
  by (cases rt) (simp_all add: onTarget_def)

lemma isClear_onTarget_info:
  "filter isClear (onTarget rt (\<lambda>t. SetRenderTargetInfo t c m)) = []"
  by (cases rt) (simp_all add: onTarget_def)

lemma isClear_onTarget_blit: "filter isClear (onTarget rt BlitRenderTarget) = []"
  by (cases rt) (simp_all add: onTarget_def)

lemma isClear_onTarget_mips: "filter isClear (onTarget rt GenerateMipmaps) = []"
  by (cases rt) (simp_all add: onTarget_def)

lemma drawBackground_no_bind_clear:
  "filter isBind (fst (drawBackground cam p)) = [] \<and>
   filter isClear (fst (drawBackground cam p)) = []"
  by (simp add: drawBackground_def drawBackgroundTexture_def)

lemmas pass_filters =
  isBind_onTarget_info isBind_onTarget_blit isBind_onTarget_mips
  isClear_onTarget_info isClear_onTarget_blit isClear_onTarget_mips

lemma drawRenderPass_enabled_binds:
  assumes "enabled (passStore p r)"
  shows "filter isBind (fst (drawRenderPass cam cubeFace mipLevel r p)) =
           [ActiveRenderTarget
              (case camRenderTarget cam of
                 Some t \<Rightarrow> Some t
               | None \<Rightarrow> passRenderTarget (passStore p r))
              (viewport cam) mipLevel]"
proof (cases "renderOverride (passStore p r)")
  case True
  with assms show ?thesis
    by (simp add: drawRenderPass_def Let_def pass_filters)
next
  case False
  obtain bg p' where bg: "drawBackground cam p = (bg, p')"
    by (cases "drawBackground cam p")
  with drawBackground_no_bind_clear [of cam p] have "filter isBind bg = []" by simp
  with assms False bg show ?thesis
    by (simp add: drawRenderPass_def Let_def pass_filters)
qed

lemma drawRenderPass_enabled_clears:
  assumes "enabled (passStore p r)"
  shows "filter isClear (fst (drawRenderPass cam cubeFace mipLevel r p)) =
           (let clearFlags = (case passClearFlags (passStore p r) of
                                Some f \<Rightarrow> f
                              | None \<Rightarrow> camClearFlags cam);
                color = (case passClearColor (passStore p r) of
                           Some c \<Rightarrow> c
                         | None \<Rightarrow> solidColor (sceneBackground cam))
            in if clearFlags \<noteq> CameraClearFlags_None
               then [ClearRenderTarget clearFlags color] else [])"
proof (cases "renderOverride (passStore p r)")
  case True
  with assms show ?thesis
    by (simp add: drawRenderPass_def Let_def pass_filters)
next
  case False
  obtain bg p' where bg: "drawBackground cam p = (bg, p')"
    by (cases "drawBackground cam p")
  with drawBackground_no_bind_clear [of cam p] have "filter isClear bg = []" by simp
  with assms False bg show ?thesis
    by (simp add: drawRenderPass_def Let_def pass_filters)
qed

text \<open>
  Claim C3, as the code has it. A pass that is enabled binds a render target once: the
  camera's render target when the camera has one, and the pass's own only when the camera
  has none. It clears at most once, with the pass's clear flags when the pass has them and
  the camera's otherwise, and with the pass's clear colour when the pass has one and the
  solid colour of the background otherwise; it clears when and only when these flags are
  not \<open>None\<close>.
\<close>

theorem drawRenderPass_enabled_target_and_clear:
  assumes "enabled (passStore p r)"
  shows "filter isBind (fst (drawRenderPass cam cubeFace mipLevel r p)) =
           [ActiveRenderTarget
              (case camRenderTarget cam of
                 Some t \<Rightarrow> Some t
               | None \<Rightarrow> passRenderTarget (passStore p r))
              (viewport cam) mipLevel]
         \<and> filter isClear (fst (drawRenderPass cam cubeFace mipLevel r p)) =
           (let clearFlags = (case passClearFlags (passStore p r) of
                                Some f \<Rightarrow> f
                              | None \<Rightarrow> camClearFlags cam);
                color = (case passClearColor (passStore p r) of
                           Some c \<Rightarrow> c
                         | None \<Rightarrow> solidColor (sceneBackground cam))
            in if clearFlags \<noteq> CameraClearFlags_None
               then [ClearRenderTarget clearFlags color] else [])"
  using drawRenderPass_enabled_binds [OF assms] drawRenderPass_enabled_clears [OF assms]
  by simp

theorem drawRenderPass_enabled_target_and_clear_witness:
  "enabled (passStore somePipeline 0)
   \<and> filter isBind (fst (drawRenderPass someCamera None None 0 somePipeline)) =
       [ActiveRenderTarget (Some 1) 0 None]
   \<and> filter isClear (fst (drawRenderPass someCamera None None 0 somePipeline)) =
       [ClearRenderTarget 7 9]"
proof -
  have en: "enabled (passStore somePipeline 0)"
    by (simp add: somePipeline_def defaultPass_def)
  from drawRenderPass_enabled_target_and_clear [OF en, of someCamera None None]
  show ?thesis
    using en
    by (simp add: somePipeline_def defaultPass_def someCamera_def someBackground_def
        CameraClearFlags_None_def)
qed

text \<open>
  The claim as the specification words it fails where the camera and the pass both have
  a render target: pass 1 of \<open>somePipeline\<close> has render target 2, the camera has
  render target 1, and the pass binds 1.
\<close>

theorem drawRenderPass_binds_camera_target:
  "enabled (passStore somePipeline 1)
   \<and> passRenderTarget (passStore somePipeline 1) = Some 2
   \<and> filter isBind (fst (drawRenderPass someCamera None None 1 somePipeline)) =
       [ActiveRenderTarget (camRenderTarget someCamera) 0 None]
   \<and> camRenderTarget someCamera \<noteq> passRenderTarget (passStore somePipeline 1)"
  by (simp add: drawRenderPass_def Let_def somePipeline_def defaultPass_def someCamera_def
      someBackground_def onTarget_def drawBackground_def CameraClearFlags_None_def
      CameraClearFlags_Color_def)

text \<open>
  Claim C9. A pass that is not enabled calls \<open>preRender\<close> once, then \<open>postRender\<close>
  once, and nothing else: no render target is bound, nothing is cleared, no queue and no
  background is drawn, and the pipeline is as before.
\<close>

theorem drawRenderPass_disabled:
  assumes "\<not> enabled (passStore p r)"
  shows "drawRenderPass cam cubeFace mipLevel r p = ([PreRender r, PostRender r], p)"
  using assms by (simp add: drawRenderPass_def)

theorem drawRenderPass_disabled_witness:
  "\<not> enabled (passStore somePipeline 2)
   \<and> drawRenderPass someCamera None None 2 somePipeline =
       ([PreRender 2, PostRender 2], somePipeline)"
proof -
  have off: "\<not> enabled (passStore somePipeline 2)"
    by (simp add: somePipeline_def)
  from drawRenderPass_disabled [OF off] off show ?thesis by simp
qed

section \<open>The sort key of a renderer\<close>

lemma callRenderFrom_length: "length (fst (callRenderFrom M cam n rs)) = length rs"
  by (induction n arbitrary: rs) (simp_all add: split_def Let_def)

lemma callRenderFrom_above:
  "n \<le> i \<Longrightarrow> fst (callRenderFrom M cam n rs) ! i = rs ! i"
  by (induction n arbitrary: rs) (simp_all add: split_def Let_def)

lemma callRenderFrom_below:
  "i < n \<Longrightarrow> n \<le> length rs \<Longrightarrow>
   fst (callRenderFrom M cam n rs) ! i = fst (callRenderOne M cam (rs ! i))"
proof (induction n arbitrary: rs)
  case 0
  then show ?case by simp
next
  case (Suc n)
  let ?rs = "rs[n := fst (callRenderOne M cam (rs ! n))]"
  have step: "fst (callRenderFrom M cam (Suc n) rs) = fst (callRenderFrom M cam n ?rs)"
    by (simp add: split_def Let_def)
  show ?case
  proof (cases "i = n")
    case True
    with Suc.prems have "fst (callRenderFrom M cam n ?rs) ! i = ?rs ! i"
      by (simp add: callRenderFrom_above)
    with True Suc.prems step show ?thesis by simp
  next
    case False
    with Suc.prems have lt: "i < n" by simp
    from Suc.prems have "n \<le> length ?rs" by simp
    from Suc.IH [OF lt this] lt step show ?thesis by simp
  qed
qed

lemma callRender_nth:
  "i < length rs \<Longrightarrow> fst (callRender M cam rs) ! i = fst (callRenderOne M cam (rs ! i))"
  by (simp add: callRender_def callRenderFrom_below)

lemma callRenderOne_passes:
  "passesChecks M cam rd \<Longrightarrow>
   distanceForSort (fst (callRenderOne M cam rd)) = sortKey M cam rd \<and>
   snd (callRenderOne M cam rd)"
  by (auto simp: passesChecks_def callRenderOne_def sortKey_def Let_def split: if_splits)

lemma callRenderOne_skips:
  "\<not> passesChecks M cam rd \<Longrightarrow>
   distanceForSort (fst (callRenderOne M cam rd)) = distanceForSort rd \<and>
   \<not> snd (callRenderOne M cam rd)"
  by (auto simp: passesChecks_def callRenderOne_def Let_def split: if_splits)

lemma callRender_skipped_key:
  "i < length rs \<Longrightarrow> \<not> passesChecks M cam (rs ! i) \<Longrightarrow>
   distanceForSort (fst (callRender M cam rs) ! i) = distanceForSort (rs ! i)"
  by (simp add: callRender_nth callRenderOne_skips)

text \<open>
  With exact arithmetic the two keys are different numbers: for the box around
  \<open>(0, 0, -2)\<close>, seen from the origin along \<open>(0, 0, -1)\<close>, the key is 2 for an
  orthographic camera and 4 for a perspective camera.
\<close>

lemma sort_keys_differ:
  "sortKey exactMath someCamera someRenderer = 2 \<and>
   sortKey exactMath (someCamera\<lparr>isOrthographic := False\<rparr>) someRenderer = 4"
  by (simp add: sortKey_def exactMath_def someCamera_def someRenderer_def
      Vector3_distanceSquared_def)

text \<open>
  Claim C7. After \<open>_callRender\<close>, every renderer that passes the culling mask and the
  frustum check has as its sort key, when the camera is orthographic, the dot product of
  the centre of its bounds minus the world position of the camera with the world forward
  vector of the camera, and, when the camera is a perspective camera, the squared
  distance from the centre of its bounds to the world position of the camera. The two
  are different formulas: see \<open>sort_keys_differ\<close>.
\<close>

theorem callRender_sort_key:
  assumes "i < length rs" and "passesChecks M cam (rs ! i)"
  shows "distanceForSort (fst (callRender M cam rs) ! i) =
           (if isOrthographic cam
            then dot M (subtract M (getCenter M (bounds (rs ! i))) (worldPosition cam))
                   (worldForward cam)
            else distanceSquared M (getCenter M (bounds (rs ! i))) (worldPosition cam))"
  using assms by (simp add: callRender_nth callRenderOne_passes sortKey_def Let_def)

theorem callRender_sort_key_witness:
  "0 < length [someRenderer]
   \<and> passesChecks exactMath someCamera ([someRenderer] ! 0)
   \<and> distanceForSort (fst (callRender exactMath someCamera [someRenderer]) ! 0) = 2
   \<and> passesChecks exactMath (someCamera\<lparr>isOrthographic := False\<rparr>) ([someRenderer] ! 0)
   \<and> distanceForSort
       (fst (callRender exactMath (someCamera\<lparr>isOrthographic := False\<rparr>) [someRenderer]) ! 0)
       = 4"
proof -
  have len: "0 < length [someRenderer]" by simp
  have p1: "passesChecks exactMath someCamera ([someRenderer] ! 0)"
    by (simp add: passesChecks_def someCamera_def someRenderer_def)
  have p2: "passesChecks exactMath (someCamera\<lparr>isOrthographic := False\<rparr>) ([someRenderer] ! 0)"
    by (simp add: passesChecks_def someCamera_def someRenderer_def)
  from callRender_sort_key [OF len p1] callRender_sort_key [OF len p2] p1 p2
  show ?thesis
    by (simp add: exactMath_def someCamera_def someRenderer_def Vector3_distanceSquared_def)
qed

section \<open>The positions of the lights\<close>


lemma indexed_distinct: "indexed c st \<Longrightarrow> distinct c"
  unfolding indexed_def distinct_conv_nth
  by (metis of_nat_eq_iff)

lemma indexed_position:
  assumes "indexed c st" and "l \<in> set c"
  shows "0 \<le> lightIndex (st l) \<and> lightIndex (st l) < int (length c)
         \<and> c ! nat (lightIndex (st l)) = l"
proof -
  from assms(2) obtain k where k: "k < length c" "c ! k = l"
    by (auto simp: in_set_conv_nth)
  with assms(1) have "lightIndex (st l) = int k" by (auto simp: indexed_def)
  with k show ?thesis by simp
qed

lemma attachTo_indexed:
  assumes "indexed c st" and "l \<notin> set c"
  shows "indexed (fst (attachTo l (c, st))) (snd (attachTo l (c, st)))"
  using assms
  by (auto simp: indexed_def attachTo_def DisorderedArray_add_def nth_append)

lemma attachTo_set: "set (fst (attachTo l (c, st))) = insert l (set c)"
  by (simp add: attachTo_def DisorderedArray_add_def)

lemma snoc_parts:
  assumes "distinct c" and "c \<noteq> []"
  shows "last c \<notin> set (butlast c) \<and> set (butlast c) = set c - {last c}"
proof -
  from assms(2) have c: "c = butlast c @ [last c]" by simp
  with assms(1) have "distinct (butlast c @ [last c])" by simp
  then have nl: "last c \<notin> set (butlast c)" by simp
  from c have "set c = set (butlast c) \<union> {last c}"
    by (metis set_append list.simps(15) empty_set)
  with nl show ?thesis by auto
qed

lemma detachFrom_indexed:
  assumes inv: "indexed c st" and mem: "l \<in> set c"
  shows "\<exists>c' st'. detachFrom l (c, st) = Some (c', st') \<and> indexed c' st'
           \<and> set c' = set c - {l} \<and> lightIndex (st' l) = - 1"
proof -
  define k where "k = nat (lightIndex (st l))"
  from indexed_position [OF inv mem]
  have p: "0 \<le> lightIndex (st l)" "lightIndex (st l) < int (length c)"
    "c ! nat (lightIndex (st l)) = l" by simp_all
  from p(1) have idx: "lightIndex (st l) = int k" by (simp add: k_def)
  from p(2) idx have klt: "k < length c" by simp
  from p(3) have ck: "c ! k = l" by (simp add: k_def)
  have dist: "distinct c" by (rule indexed_distinct [OF inv])
  from klt have ne: "c \<noteq> []" by auto
  note parts = snoc_parts [OF dist ne]
  have inv1: "\<And>i. i < length c \<Longrightarrow> lightIndex (st (c ! i)) = int i"
    using inv by (simp add: indexed_def)
  have inv2: "\<And>x. x \<notin> set c \<Longrightarrow> lightIndex (st x) = - 1"
    using inv by (simp add: indexed_def)
  show ?thesis
  proof (cases "k = length c - 1")
    case True
    with ck ne have lastl: "last c = l" by (simp add: last_conv_nth)
    let ?st = "st(l := (st l)\<lparr>lightIndex := - 1\<rparr>)"
    from True idx klt have islast: "lightIndex (st l) = int (length c) - 1" by auto
    have del: "detachFrom l (c, st) = Some (butlast c, ?st)"
      using p(1) p(2) islast
      by (simp add: detachFrom_def DisorderedArray_deleteByIndex_def)
    from parts lastl have nl: "l \<notin> set (butlast c)"
      and sets: "set (butlast c) = set c - {l}" by simp_all
    have "indexed (butlast c) ?st"
      unfolding indexed_def
    proof (intro conjI allI impI)
      fix i assume i: "i < length (butlast c)"
      then have "butlast c ! i \<in> set (butlast c)" by simp
      with nl have "butlast c ! i \<noteq> l" by auto
      moreover from i have "butlast c ! i = c ! i" by (simp add: nth_butlast)
      moreover from i have "i < length c" by simp
      ultimately show "lightIndex (?st (butlast c ! i)) = int i"
        using inv1 by simp
    next
      fix x assume "x \<notin> set (butlast c)"
      with sets have "x = l \<or> x \<notin> set c" by auto
      then show "lightIndex (?st x) = - 1"
        using inv2 by auto
    qed
    with del sets show ?thesis by simp
  next
    case False
    define e where "e = last c"
    from False klt have kb: "k < length (butlast c)" by simp
    from parts have enb: "e \<notin> set (butlast c)"
      and sets: "set (butlast c) = set c - {e}" by (simp_all add: e_def)
    from kb have "butlast c ! k = c ! k" by (simp add: nth_butlast)
    with kb ck have lb: "l \<in> set (butlast c)" by (metis nth_mem)
    with enb have el: "e \<noteq> l" by auto
    from ne have elast: "c ! (length c - 1) = e" by (simp add: e_def last_conv_nth)
    let ?c = "(butlast c)[k := e]"
    let ?st1 = "st(e := (st e)\<lparr>lightIndex := int k\<rparr>)"
    let ?st = "?st1(l := (?st1 l)\<lparr>lightIndex := - 1\<rparr>)"
    from False idx klt have notlast: "lightIndex (st l) \<noteq> int (length c) - 1" by auto
    have natk: "nat (lightIndex (st l)) = k" by (simp add: k_def)
    have del: "detachFrom l (c, st) = Some (?c, ?st)"
      using p(1) p(2) notlast natk idx
      by (simp add: detachFrom_def DisorderedArray_deleteByIndex_def e_def)
    have dl: "distinct (butlast c)" using dist by (simp add: distinct_butlast)
    have setc: "set ?c = set c - {l}"
    proof -
      have "set ?c = insert e (set (butlast c) - {butlast c ! k})"
        using kb dl by (simp add: set_update_distinct)
      also have "butlast c ! k = l" using kb ck by (simp add: nth_butlast)
      finally show ?thesis using sets ne el by (auto simp: e_def)
    qed
    have "indexed ?c ?st"
      unfolding indexed_def
    proof (intro conjI allI impI)
      fix i assume i: "i < length ?c"
      then have ib: "i < length (butlast c)" by simp
      show "lightIndex (?st (?c ! i)) = int i"
      proof (cases "i = k")
        case True
        with kb el show ?thesis by simp
      next
        case False
        with ib have ci: "?c ! i = c ! i" by (simp add: nth_butlast)
        from ib have ic: "i < length c" by simp
        from ib have "butlast c ! i \<in> set (butlast c)" by simp
        with enb ib have ne_e: "c ! i \<noteq> e" by (metis nth_butlast)
        from False ic klt dist ck have ne_l: "c ! i \<noteq> l"
          by (metis nth_eq_iff_index_eq)
        from ci ne_e ne_l inv1 [OF ic] show ?thesis by simp
      qed
    next
      fix x assume "x \<notin> set ?c"
      with setc have "x = l \<or> x \<notin> set c" by auto
      moreover have "e \<in> set c" using ne by (simp add: e_def)
      ultimately show "lightIndex (?st x) = - 1"
        using inv2 by auto
    qed
    with del setc show ?thesis by simp
  qed
qed

lemma lightCallOn_inv:
  assumes inv: "registryInv e" and turn: "inTurn c e"
  shows "\<exists>e'. lightCallOn c e = Some e' \<and> registryInv e'"
proof (cases c)
  case (AttachSpot l)
  with turn have "l \<notin> set (spotLights (lightManager e))" by simp
  with inv have "indexed (fst (attachTo l (spotLights (lightManager e), spotStore e)))
                   (snd (attachTo l (spotLights (lightManager e), spotStore e)))"
    by (simp add: registryInv_def attachTo_indexed)
  with inv AttachSpot show ?thesis
    by (simp add: registryInv_def attachSpotLight_def split_def Let_def)
next
  case (DetachSpot l)
  with turn have "l \<in> set (spotLights (lightManager e))" by simp
  with inv obtain c' st' where
    "detachFrom l (spotLights (lightManager e), spotStore e) = Some (c', st')" "indexed c' st'"
    using detachFrom_indexed [of "spotLights (lightManager e)" "spotStore e" l]
    by (auto simp: registryInv_def)
  with inv DetachSpot show ?thesis
    by (simp add: registryInv_def detachSpotLight_def)
next
  case (AttachPoint l)
  with turn have "l \<notin> set (pointLights (lightManager e))" by simp
  with inv have "indexed (fst (attachTo l (pointLights (lightManager e), pointStore e)))
                   (snd (attachTo l (pointLights (lightManager e), pointStore e)))"
    by (simp add: registryInv_def attachTo_indexed)
  with inv AttachPoint show ?thesis
    by (simp add: registryInv_def attachPointLight_def split_def Let_def)
next
  case (DetachPoint l)
  with turn have "l \<in> set (pointLights (lightManager e))" by simp
  with inv obtain c' st' where
    "detachFrom l (pointLights (lightManager e), pointStore e) = Some (c', st')" "indexed c' st'"
    using detachFrom_indexed [of "pointLights (lightManager e)" "pointStore e" l]
    by (auto simp: registryInv_def)
  with inv DetachPoint show ?thesis
    by (simp add: registryInv_def detachPointLight_def)
next
  case (AttachDirect l)
  with turn have "l \<notin> set (directLights (lightManager e))" by simp
  with inv have "indexed (fst (attachTo l (directLights (lightManager e), directStore e)))
                   (snd (attachTo l (directLights (lightManager e), directStore e)))"
    by (simp add: registryInv_def attachTo_indexed)
  with inv AttachDirect show ?thesis
    by (simp add: registryInv_def attachDirectLight_def split_def Let_def)
next
  case (DetachDirect l)
  with turn have "l \<in> set (directLights (lightManager e))" by simp
  with inv obtain c' st' where
    "detachFrom l (directLights (lightManager e), directStore e) = Some (c', st')" "indexed c' st'"
    using detachFrom_indexed [of "directLights (lightManager e)" "directStore e" l]
    by (auto simp: registryInv_def)
  with inv DetachDirect show ?thesis
    by (simp add: registryInv_def detachDirectLight_def)
qed

lemma lightCalls_inv:
  "registryInv e \<Longrightarrow> interleaving cs e \<Longrightarrow>
   \<exists>e'. lightCalls cs e = Some e' \<and> registryInv e'"
proof (induction cs arbitrary: e)
  case Nil
  then show ?case by simp
next
  case (Cons c cs)
  from Cons.prems have turn: "inTurn c e" by simp
  from lightCallOn_inv [OF Cons.prems(1) turn]
  obtain e1 where e1: "lightCallOn c e = Some e1" "registryInv e1" by blast
  with Cons.prems have "interleaving cs e1" by simp
  from Cons.IH [OF e1(2) this] e1(1) show ?case by simp
qed

lemma interleaving_take: "interleaving cs e \<Longrightarrow> interleaving (take n cs) e"
proof (induction cs arbitrary: e n)
  case Nil
  then show ?case by simp
next
  case (Cons c cs)
  show ?case
  proof (cases n)
    case 0
    then show ?thesis by simp
  next
    case (Suc m)
    with Cons show ?thesis by (auto split: option.splits)
  qed
qed

lemma newEngine_inv: "registryInv newEngine"
  by (simp add: registryInv_def indexed_def newEngine_def newLight_def)


lemmas light_defs =
  newEngine_def newLight_def attachDirectLight_def attachSpotLight_def attachPointLight_def
  detachDirectLight_def detachSpotLight_def detachPointLight_def attachTo_def detachFrom_def
  DisorderedArray_add_def DisorderedArray_deleteByIndex_def

lemma attachTo_result:
  "attachTo l (c, st) = (c @ [l], st(l := (st l)\<lparr>lightIndex := int (length c)\<rparr>))"
  by (simp add: attachTo_def DisorderedArray_add_def)

lemma lightCallOn_carriedOut:
  assumes inv: "registryInv e" and turn: "inTurn c e"
  shows "\<exists>e'. lightCallOn c e = Some e' \<and> carriedOut c e e'"
proof (cases c)
  case (AttachSpot l)
  then show ?thesis by (simp add: attachSpotLight_def attachTo_result)
next
  case (AttachPoint l)
  then show ?thesis by (simp add: attachPointLight_def attachTo_result)
next
  case (AttachDirect l)
  then show ?thesis by (simp add: attachDirectLight_def attachTo_result)
next
  case (DetachSpot l)
  with turn have "l \<in> set (spotLights (lightManager e))" by simp
  moreover from inv have "indexed (spotLights (lightManager e)) (spotStore e)"
    by (simp add: registryInv_def)
  ultimately obtain c' st' where
    "detachFrom l (spotLights (lightManager e), spotStore e) = Some (c', st')"
    "set c' = set (spotLights (lightManager e)) - {l}" "lightIndex (st' l) = - 1"
    using detachFrom_indexed [of "spotLights (lightManager e)" "spotStore e" l] by blast
  with DetachSpot show ?thesis by (simp add: detachSpotLight_def)
next
  case (DetachPoint l)
  with turn have "l \<in> set (pointLights (lightManager e))" by simp
  moreover from inv have "indexed (pointLights (lightManager e)) (pointStore e)"
    by (simp add: registryInv_def)
  ultimately obtain c' st' where
    "detachFrom l (pointLights (lightManager e), pointStore e) = Some (c', st')"
    "set c' = set (pointLights (lightManager e)) - {l}" "lightIndex (st' l) = - 1"
    using detachFrom_indexed [of "pointLights (lightManager e)" "pointStore e" l] by blast
  with DetachPoint show ?thesis by (simp add: detachPointLight_def)
next
  case (DetachDirect l)
  with turn have "l \<in> set (directLights (lightManager e))" by simp
  moreover from inv have "indexed (directLights (lightManager e)) (directStore e)"
    by (simp add: registryInv_def)
  ultimately obtain c' st' where
    "detachFrom l (directLights (lightManager e), directStore e) = Some (c', st')"
    "set c' = set (directLights (lightManager e)) - {l}" "lightIndex (st' l) = - 1"
    using detachFrom_indexed [of "directLights (lightManager e)" "directStore e" l] by blast
  with DetachDirect show ?thesis by (simp add: detachDirectLight_def)
qed

lemma lightCalls_take_Suc:
  "n < length cs \<Longrightarrow> lightCalls (take n cs) e = Some e1 \<Longrightarrow>
   lightCalls (take (Suc n) cs) e = lightCallOn (cs ! n) e1"
proof (induction cs arbitrary: e n)
  case Nil
  then show ?case by simp
next
  case (Cons c cs)
  show ?case
  proof (cases n)
    case 0
    with Cons.prems show ?thesis by (simp split: option.splits)
  next
    case (Suc m)
    with Cons.prems obtain e0 where e0: "lightCallOn c e = Some e0"
      and rest: "lightCalls (take m cs) e0 = Some e1"
      by (cases "lightCallOn c e") simp_all
    from Suc Cons.prems have "m < length cs" by simp
    from Cons.IH [OF this rest] Suc e0 show ?thesis by simp
  qed
qed

lemma interleaving_next:
  "interleaving cs e \<Longrightarrow> n < length cs \<Longrightarrow> lightCalls (take n cs) e = Some e1 \<Longrightarrow>
   inTurn (cs ! n) e1"
proof (induction cs arbitrary: e n)
  case Nil
  then show ?case by simp
next
  case (Cons c cs)
  show ?case
  proof (cases n)
    case 0
    with Cons.prems show ?thesis by simp
  next
    case (Suc m)
    with Cons.prems obtain e0 where e0: "lightCallOn c e = Some e0"
      and rest: "lightCalls (take m cs) e0 = Some e1"
      by (cases "lightCallOn c e") simp_all
    from Cons.prems(1) e0 have il: "interleaving cs e0" by simp
    from Suc Cons.prems have "m < length cs" by simp
    from Cons.IH [OF il this rest] Suc show ?thesis by simp
  qed
qed

lemma moreLightCalls_interleaving: "interleaving moreLightCalls newEngine"
  by (simp add: moreLightCalls_def light_defs)

lemma moreLightCalls_result:
  "\<exists>e'. lightCalls moreLightCalls newEngine = Some e'
     \<and> directLights (lightManager e') = [2]
     \<and> pointLights (lightManager e') = [8]
     \<and> spotLights (lightManager e') = []
     \<and> lightIndex (directStore e' 2) = 0 \<and> lightIndex (directStore e' 1) = - 1
     \<and> lightIndex (directStore e' 3) = - 1
     \<and> lightIndex (pointStore e' 8) = 0 \<and> lightIndex (pointStore e' 7) = - 1
     \<and> lightIndex (spotStore e' 1) = - 1"
  by (simp add: moreLightCalls_def light_defs)

text \<open>
  Claim C6. Start from a light manager in which every light of a container has its
  position as its index and every other light has index -1 (a new engine is one), and
  make attach and detach calls on the three containers, each call in its turn: an attach
  of a light that is not in its container, a detach of a light that is in it. Then every
  call returns, and after each call (after the first \<open>n\<close> calls, for every \<open>n\<close>) every
  light in a container has its position in the container as its index and every light
  outside has index -1. The call after the first \<open>n\<close> has done what it is for: an
  attach has put the light at the end of its container, a detach has taken the light and
  no other out of its container and has left it with index -1, and neither has touched
  the containers and lights of the other kinds.
\<close>

theorem light_registry_indexed:
  assumes "registryInv e" and "interleaving cs e"
  shows "(\<exists>e'. lightCalls (take n cs) e = Some e' \<and> registryInv e')
         \<and> (n < length cs \<longrightarrow>
              (\<exists>e1 e2. lightCalls (take n cs) e = Some e1
                 \<and> lightCallOn (cs ! n) e1 = Some e2
                 \<and> lightCalls (take (Suc n) cs) e = Some e2
                 \<and> registryInv e2 \<and> carriedOut (cs ! n) e1 e2))"
proof (intro conjI impI)
  from assms have il: "interleaving (take n cs) e" by (simp add: interleaving_take)
  from lightCalls_inv [OF assms(1) il]
  show first: "\<exists>e'. lightCalls (take n cs) e = Some e' \<and> registryInv e'" .
  assume n: "n < length cs"
  from first obtain e1 where e1: "lightCalls (take n cs) e = Some e1" "registryInv e1" by blast
  from interleaving_next [OF assms(2) n e1(1)] have turn: "inTurn (cs ! n) e1" .
  from lightCallOn_carriedOut [OF e1(2) turn]
  obtain e2 where e2: "lightCallOn (cs ! n) e1 = Some e2" "carriedOut (cs ! n) e1 e2" by blast
  from lightCallOn_inv [OF e1(2) turn] e2(1) have inv2: "registryInv e2" by simp
  from lightCalls_take_Suc [OF n e1(1)] e2(1)
  have "lightCalls (take (Suc n) cs) e = Some e2" by simp
  with e1(1) e2 inv2
  show "\<exists>e1 e2. lightCalls (take n cs) e = Some e1
          \<and> lightCallOn (cs ! n) e1 = Some e2
          \<and> lightCalls (take (Suc n) cs) e = Some e2
          \<and> registryInv e2 \<and> carriedOut (cs ! n) e1 e2" by blast
qed

theorem light_registry_indexed_witness:
  "registryInv newEngine \<and> interleaving moreLightCalls newEngine
   \<and> (\<exists>e'. lightCalls (take 10 moreLightCalls) newEngine = Some e' \<and> registryInv e')
   \<and> (\<exists>e1 e2. lightCalls (take 4 moreLightCalls) newEngine = Some e1
          \<and> lightCallOn (DetachDirect 1) e1 = Some e2
          \<and> registryInv e2 \<and> carriedOut (DetachDirect 1) e1 e2)
   \<and> (\<exists>e1 e2. lightCalls (take 7 moreLightCalls) newEngine = Some e1
          \<and> lightCallOn (DetachSpot 1) e1 = Some e2
          \<and> registryInv e2 \<and> carriedOut (DetachSpot 1) e1 e2)
   \<and> (\<exists>e'. lightCalls moreLightCalls newEngine = Some e'
         \<and> directLights (lightManager e') = [2]
         \<and> pointLights (lightManager e') = [8]
         \<and> spotLights (lightManager e') = []
         \<and> lightIndex (directStore e' 2) = 0 \<and> lightIndex (directStore e' 1) = - 1
         \<and> lightIndex (directStore e' 3) = - 1
         \<and> lightIndex (pointStore e' 8) = 0 \<and> lightIndex (pointStore e' 7) = - 1
         \<and> lightIndex (spotStore e' 1) = - 1)"
proof -
  note t = light_registry_indexed [OF newEngine_inv moreLightCalls_interleaving]
  have len: "length moreLightCalls = 10" by (simp add: moreLightCalls_def)
  have c4: "moreLightCalls ! 4 = DetachDirect 1" by (simp add: moreLightCalls_def)
  have c7: "moreLightCalls ! 7 = DetachSpot 1" by (simp add: moreLightCalls_def)
  from t [of 10] have a: "\<exists>e'. lightCalls (take 10 moreLightCalls) newEngine = Some e'
      \<and> registryInv e'" by blast
  from t [of 4] len c4 have b: "\<exists>e1 e2. lightCalls (take 4 moreLightCalls) newEngine = Some e1
          \<and> lightCallOn (DetachDirect 1) e1 = Some e2
          \<and> registryInv e2 \<and> carriedOut (DetachDirect 1) e1 e2" by auto
  from t [of 7] len c7 have c: "\<exists>e1 e2. lightCalls (take 7 moreLightCalls) newEngine = Some e1
          \<and> lightCallOn (DetachSpot 1) e1 = Some e2
          \<and> registryInv e2 \<and> carriedOut (DetachSpot 1) e1 e2" by auto
  from a b c newEngine_inv moreLightCalls_interleaving moreLightCalls_result
  show ?thesis by blast
qed

section \<open>Which light is the sun\<close>

lemma jsLess_irrefl: "\<not> jsLess a a"
  by (cases a) simp_all

lemma jsLess_trans: "jsLess a b \<Longrightarrow> jsLess b c \<Longrightarrow> jsLess a c"
  by (cases a; cases b; cases c) simp_all

lemma jsLess_over: "\<not> jsLess a b \<Longrightarrow> jsLess a c \<Longrightarrow> \<not> jsLess c b"
  by (cases a; cases b; cases c) simp_all

lemma jsLess_none: "\<not> canWin y \<Longrightarrow> \<not> jsLess x y"
  by (cases x; cases y) (simp_all add: canWin_def)

lemma canWin_less: "canWin a \<Longrightarrow> jsLess a b \<Longrightarrow> canWin b"
  unfolding canWin_def by (rule jsLess_trans)

lemma jsLess_total: "canWin a \<Longrightarrow> canWin b \<Longrightarrow> a \<noteq> b \<Longrightarrow> jsLess a b \<or> jsLess b a"
  by (cases a; cases b) (auto simp: canWin_def)

lemma inTier_snoc:
  "inTier (pre @ [l]) j =
     (if casts l
      then (if list_ex casts pre then inTier pre j \<or> j = length pre else j = length pre)
      else (if list_ex casts pre then inTier pre j else j \<le> length pre))"
  by (auto simp: inTier_def nth_append list_ex_iff)

lemma inTier_less: "inTier ls j \<Longrightarrow> j < length ls"
  by (simp add: inTier_def)

lemma hasCandidate_iff:
  "hasCandidate multiply ls = (\<exists>j. inTier ls j \<and> canWin (product multiply (ls ! j)))"
proof
  assume "hasCandidate multiply ls"
  then obtain l where l: "l \<in> set ls" "if list_ex casts ls then casts l else True"
    "canWin (product multiply l)"
    by (auto simp: hasCandidate_def list_ex_iff)
  from l(1) obtain j where j: "j < length ls" "ls ! j = l"
    by (auto simp: in_set_conv_nth)
  with l(2) have "inTier ls j" by (simp add: inTier_def)
  with j l(3) show "\<exists>j. inTier ls j \<and> canWin (product multiply (ls ! j))" by auto
next
  assume "\<exists>j. inTier ls j \<and> canWin (product multiply (ls ! j))"
  then obtain j where j: "inTier ls j" "canWin (product multiply (ls ! j))" by blast
  from j(1) have "ls ! j \<in> set ls" by (simp add: inTier_def)
  moreover from j(1) have "if list_ex casts ls then casts (ls ! j) else True"
    by (simp add: inTier_def)
  ultimately show "hasCandidate multiply ls"
    using j(2) unfolding hasCandidate_def list_ex_iff by blast
qed

lemma hasCandidate_snoc:
  "hasCandidate multiply (pre @ [l]) =
     (if casts l
      then (if list_ex casts pre
            then hasCandidate multiply pre \<or> canWin (product multiply l)
            else canWin (product multiply l))
      else (if list_ex casts pre
            then hasCandidate multiply pre
            else hasCandidate multiply pre \<or> canWin (product multiply l)))"
  by (auto simp: hasCandidate_def list_ex_iff)

lemma isSunOf_candidate: "isSunOf multiply ls k \<Longrightarrow> hasCandidate multiply ls"
  unfolding hasCandidate_iff isSunOf_def by blast

lemma scanInv_start: "scanInv multiply [] sunStart"
  by (simp add: scanInv_def sunStart_def hasCandidate_def noShadowIndex_def)

lemma scanInvI:
  "isSunOf multiply pre k \<Longrightarrow> hasShadowLight s = list_ex casts pre \<Longrightarrow>
   sunLightIndex s = int k \<Longrightarrow> maxIntensity s = product multiply (pre ! k) \<Longrightarrow>
   scanInv multiply pre s"
  using isSunOf_candidate [of multiply pre k] by (auto simp: scanInv_def)

lemma noShadowIndex_snoc:
  "noShadowIndex pre i \<Longrightarrow> noShadowIndex (pre @ [l]) i"
  by (auto simp: noShadowIndex_def nth_append list_ex_iff)

lemma isSunOf_first:
  assumes win: "canWin (product multiply l)"
    and tier: "inTier (pre @ [l]) (length pre)"
    and none: "\<And>j. inTier (pre @ [l]) j \<Longrightarrow> j < length pre \<Longrightarrow>
                 \<not> canWin (product multiply (pre ! j))"
  shows "isSunOf multiply (pre @ [l]) (length pre)"
  unfolding isSunOf_def
proof (intro conjI allI impI)
  show "inTier (pre @ [l]) (length pre)" by (rule tier)
next
  show "canWin (product multiply ((pre @ [l]) ! length pre))" using win by simp
next
  fix j assume tj: "inTier (pre @ [l]) j"
  show "\<not> jsLess (product multiply ((pre @ [l]) ! length pre))
            (product multiply ((pre @ [l]) ! j))"
  proof (cases "j < length pre")
    case True
    from none [OF tj True] have "\<not> jsLess (product multiply l) (product multiply (pre ! j))"
      by (rule jsLess_none)
    with True show ?thesis by (simp add: nth_append)
  next
    case False
    with inTier_less [OF tj] have "j = length pre" by simp
    then show ?thesis by (simp add: jsLess_irrefl)
  qed
next
  fix j assume a: "inTier (pre @ [l]) j \<and> j < length pre"
  then have "\<not> canWin (product multiply (pre ! j))" by (simp add: none)
  with win have "product multiply (pre ! j) \<noteq> product multiply l" by auto
  with a show "product multiply ((pre @ [l]) ! j) \<noteq> product multiply ((pre @ [l]) ! length pre)"
    by (simp add: nth_append)
qed

lemma isSunOf_new:
  assumes sun: "isSunOf multiply pre k"
    and lt: "jsLess (product multiply (pre ! k)) (product multiply l)"
    and tier: "\<And>j. inTier (pre @ [l]) j = (inTier pre j \<or> j = length pre)"
  shows "isSunOf multiply (pre @ [l]) (length pre)"
  unfolding isSunOf_def
proof (intro conjI allI impI)
  show "inTier (pre @ [l]) (length pre)" by (simp add: tier)
next
  from sun have "canWin (product multiply (pre ! k))" by (simp add: isSunOf_def)
  from canWin_less [OF this lt]
  show "canWin (product multiply ((pre @ [l]) ! length pre))" by simp
next
  fix j assume "inTier (pre @ [l]) j"
  then have "inTier pre j \<or> j = length pre" by (simp add: tier)
  then show "\<not> jsLess (product multiply ((pre @ [l]) ! length pre))
                 (product multiply ((pre @ [l]) ! j))"
  proof
    assume tj: "inTier pre j"
    then have "j < length pre" by (rule inTier_less)
    then have eq: "(pre @ [l]) ! j = pre ! j" by (simp add: nth_append)
    from sun tj
    have "\<not> jsLess (product multiply (pre ! k)) (product multiply (pre ! j))"
      by (simp add: isSunOf_def)
    from jsLess_over [OF this lt] eq show ?thesis by simp
  next
    assume "j = length pre"
    then show ?thesis by (simp add: jsLess_irrefl)
  qed
next
  fix j assume a: "inTier (pre @ [l]) j \<and> j < length pre"
  then have tj: "inTier pre j" by (auto simp: tier)
  from a have eq: "(pre @ [l]) ! j = pre ! j" by (simp add: nth_append)
  from sun tj
  have nl: "\<not> jsLess (product multiply (pre ! k)) (product multiply (pre ! j))"
    by (simp add: isSunOf_def)
  have "product multiply (pre ! j) \<noteq> product multiply l"
  proof
    assume "product multiply (pre ! j) = product multiply l"
    with nl lt show False by simp
  qed
  with eq show "product multiply ((pre @ [l]) ! j) \<noteq> product multiply ((pre @ [l]) ! length pre)"
    by simp
qed

lemma isSunOf_keep:
  assumes sun: "isSunOf multiply pre k"
    and tier: "\<And>j. inTier (pre @ [l]) j \<Longrightarrow>
                 inTier pre j
                 \<or> (j = length pre \<and> \<not> jsLess (product multiply (pre ! k)) (product multiply l))"
    and sub: "\<And>j. inTier pre j \<Longrightarrow> inTier (pre @ [l]) j"
  shows "isSunOf multiply (pre @ [l]) k"
  unfolding isSunOf_def
proof (intro conjI allI impI)
  from sun have kt: "inTier pre k" by (simp add: isSunOf_def)
  then have klt: "k < length pre" by (rule inTier_less)
  then have kk: "(pre @ [l]) ! k = pre ! k" by (simp add: nth_append)
  show "inTier (pre @ [l]) k" using kt by (rule sub)
  from sun kk show "canWin (product multiply ((pre @ [l]) ! k))" by (simp add: isSunOf_def)
  {
    fix j assume "inTier (pre @ [l]) j"
    then have "inTier pre j
               \<or> (j = length pre \<and> \<not> jsLess (product multiply (pre ! k)) (product multiply l))"
      by (rule tier)
    then show "\<not> jsLess (product multiply ((pre @ [l]) ! k))
                   (product multiply ((pre @ [l]) ! j))"
    proof
      assume tj: "inTier pre j"
      then have "j < length pre" by (rule inTier_less)
      then have "(pre @ [l]) ! j = pre ! j" by (simp add: nth_append)
      moreover from sun tj
      have "\<not> jsLess (product multiply (pre ! k)) (product multiply (pre ! j))"
        by (simp add: isSunOf_def)
      ultimately show ?thesis using kk by simp
    next
      assume "j = length pre \<and> \<not> jsLess (product multiply (pre ! k)) (product multiply l)"
      then show ?thesis using kk by simp
    qed
  }
  {
    fix j assume a: "inTier (pre @ [l]) j \<and> j < k"
    with klt have jl: "j < length pre" by simp
    from a have "inTier pre j
               \<or> (j = length pre \<and> \<not> jsLess (product multiply (pre ! k)) (product multiply l))"
      by (simp add: tier)
    with jl have tj: "inTier pre j" by auto
    from jl have "(pre @ [l]) ! j = pre ! j" by (simp add: nth_append)
    moreover from sun tj a have "product multiply (pre ! j) \<noteq> product multiply (pre ! k)"
      by (simp add: isSunOf_def)
    ultimately
    show "product multiply ((pre @ [l]) ! j) \<noteq> product multiply ((pre @ [l]) ! k)"
      using kk by simp
  }
qed

lemma scanInv_step:
  assumes inv: "scanInv multiply pre s"
  shows "scanInv multiply (pre @ [l]) (sunStep multiply l (int (length pre)) s)"
proof -
  let ?x = "product multiply l"
  let ?n = "length pre"
  from inv have has: "hasShadowLight s = list_ex casts pre" by (simp add: scanInv_def)
  have ex': "list_ex casts (pre @ [l]) = (list_ex casts pre \<or> casts l)"
    by (auto simp: list_ex_iff)
  show ?thesis
  proof (cases "casts l \<and> \<not> list_ex casts pre")
    case first: True
    have cand: "hasCandidate multiply (pre @ [l]) = canWin ?x"
      using first by (simp add: hasCandidate_snoc)
    show ?thesis
    proof (cases "canWin ?x")
      case True
      with first has have st: "sunStep multiply l (int ?n) s =
          s\<lparr>maxIntensity := ?x, hasShadowLight := True, sunLightIndex := int ?n\<rparr>"
        by (simp add: sunStep_def Let_def casts_def product_def canWin_def)
      from first have tier: "\<And>j. inTier (pre @ [l]) j = (j = ?n)" by (simp add: inTier_snoc)
      have "isSunOf multiply (pre @ [l]) ?n"
        using True by (rule isSunOf_first) (simp_all add: tier)
      then show ?thesis
        unfolding st by (rule scanInvI) (simp_all add: ex' first)
    next
      case False
      with first has have st: "sunStep multiply l (int ?n) s =
          s\<lparr>maxIntensity := NEGATIVE_INFINITY, hasShadowLight := True\<rparr>"
        by (simp add: sunStep_def Let_def casts_def product_def canWin_def)
      have idx: "noShadowIndex (pre @ [l]) (sunLightIndex s)"
      proof (cases "hasCandidate multiply pre")
        case True
        with inv obtain k where k: "sunLightIndex s = int k" "isSunOf multiply pre k"
          by (auto simp: scanInv_def)
        from k(2) have klt: "k < length pre" by (simp add: isSunOf_def inTier_def)
        with first have "\<not> casts (pre ! k)" by (auto simp: list_ex_iff)
        with klt k(1) first show ?thesis
          by (simp add: noShadowIndex_def nth_append ex')
      next
        case False
        with inv have "noShadowIndex pre (sunLightIndex s)" by (simp add: scanInv_def)
        then show ?thesis by (rule noShadowIndex_snoc)
      qed
      from False cand have "\<not> hasCandidate multiply (pre @ [l])" by simp
      with idx show ?thesis
        unfolding st by (simp add: scanInv_def ex' first)
    qed
  next
    case notfirst: False
    show ?thesis
    proof (cases "\<not> casts l \<and> list_ex casts pre")
      case skip: True
      with has have st: "sunStep multiply l (int ?n) s = s"
        by (simp add: sunStep_def Let_def casts_def)
      from skip have tier: "\<And>j. inTier (pre @ [l]) j = inTier pre j"
        by (simp add: inTier_snoc)
      from skip have cand: "hasCandidate multiply (pre @ [l]) = hasCandidate multiply pre"
        by (simp add: hasCandidate_snoc)
      show ?thesis
      proof (cases "hasCandidate multiply pre")
        case True
        with inv obtain k where k: "sunLightIndex s = int k" "isSunOf multiply pre k"
          "maxIntensity s = product multiply (pre ! k)"
          by (auto simp: scanInv_def)
        from k(2) have "k < length pre" by (simp add: isSunOf_def inTier_def)
        then have kk: "(pre @ [l]) ! k = pre ! k" by (simp add: nth_append)
        have "isSunOf multiply (pre @ [l]) k"
          using k(2) by (rule isSunOf_keep) (simp_all add: tier)
        then show ?thesis
          unfolding st by (rule scanInvI) (simp_all add: ex' skip has k kk)
      next
        case False
        with inv have old: "maxIntensity s = NEGATIVE_INFINITY"
          "noShadowIndex pre (sunLightIndex s)"
          by (simp_all add: scanInv_def)
        from old(2) have "noShadowIndex (pre @ [l]) (sunLightIndex s)"
          by (rule noShadowIndex_snoc)
        moreover from False cand have "\<not> hasCandidate multiply (pre @ [l])" by simp
        ultimately show ?thesis
          unfolding st using old(1) by (simp add: scanInv_def ex' has skip)
      qed
    next
      case False
      with notfirst have same: "casts l = list_ex casts pre" by auto
      have tier: "inTier (pre @ [l]) j = (inTier pre j \<or> j = ?n)" for j
      proof (cases "casts l")
        case True
        with same show ?thesis by (simp add: inTier_snoc)
      next
        case False
        with same have none: "\<not> list_ex casts pre" by simp
        then have "inTier pre j = (j < ?n)" by (simp add: inTier_def)
        moreover from False none have "inTier (pre @ [l]) j = (j \<le> ?n)"
          by (simp add: inTier_snoc)
        ultimately show ?thesis by auto
      qed
      from same have cand: "hasCandidate multiply (pre @ [l])
                            = (hasCandidate multiply pre \<or> canWin ?x)"
        by (simp add: hasCandidate_snoc)
      show ?thesis
      proof (cases "hasCandidate multiply pre")
        case True
        with inv obtain k where k: "sunLightIndex s = int k" "isSunOf multiply pre k"
          "maxIntensity s = product multiply (pre ! k)"
          by (auto simp: scanInv_def)
        from k(2) have "k < length pre" by (simp add: isSunOf_def inTier_def)
        then have kk: "(pre @ [l]) ! k = pre ! k" by (simp add: nth_append)
        show ?thesis
        proof (cases "jsLess (product multiply (pre ! k)) ?x")
          case True
          with has k same have st: "sunStep multiply l (int ?n) s =
              s\<lparr>maxIntensity := ?x, sunLightIndex := int ?n\<rparr>"
            by (simp add: sunStep_def Let_def casts_def product_def)
          from k(2) True tier have "isSunOf multiply (pre @ [l]) ?n"
            by (rule isSunOf_new)
          then show ?thesis
            unfolding st by (rule scanInvI) (simp_all add: ex' has same)
        next
          case False
          with has k same have st: "sunStep multiply l (int ?n) s = s"
            by (simp add: sunStep_def Let_def casts_def product_def)
          have "isSunOf multiply (pre @ [l]) k"
            using k(2) by (rule isSunOf_keep) (simp_all add: tier False)
          then show ?thesis
            unfolding st by (rule scanInvI) (simp_all add: ex' has same k kk)
        qed
      next
        case nocand: False
        with inv have old: "maxIntensity s = NEGATIVE_INFINITY"
          "noShadowIndex pre (sunLightIndex s)"
          by (simp_all add: scanInv_def)
        show ?thesis
        proof (cases "canWin ?x")
          case True
          with has old same have st: "sunStep multiply l (int ?n) s =
              s\<lparr>maxIntensity := ?x, sunLightIndex := int ?n\<rparr>"
            by (simp add: sunStep_def Let_def casts_def product_def canWin_def)
          have none: "\<not> canWin (product multiply (pre ! j))" if "inTier pre j" for j
            using nocand that unfolding hasCandidate_iff by blast
          have "isSunOf multiply (pre @ [l]) ?n"
            using True by (rule isSunOf_first) (auto simp: tier none)
          then show ?thesis
            unfolding st by (rule scanInvI) (simp_all add: ex' has same)
        next
          case False
          with has old same have st: "sunStep multiply l (int ?n) s = s"
            by (simp add: sunStep_def Let_def casts_def product_def canWin_def)
          from old(2) have "noShadowIndex (pre @ [l]) (sunLightIndex s)"
            by (rule noShadowIndex_snoc)
          moreover from False nocand cand have "\<not> hasCandidate multiply (pre @ [l])" by simp
          ultimately show ?thesis
            unfolding st using old(1) by (simp add: scanInv_def ex' has same)
        qed
      qed
    qed
  qed
qed

lemma scanInv_loop:
  "scanInv multiply pre s \<Longrightarrow>
   scanInv multiply (pre @ ls) (sunLoop multiply ls (int (length pre)) s)"
proof (induction ls arbitrary: pre s)
  case Nil
  then show ?case by simp
next
  case (Cons l ls)
  from scanInv_step [OF Cons.prems, of l]
  have "scanInv multiply (pre @ [l]) (sunStep multiply l (int (length pre)) s)" .
  from Cons.IH [OF this] show ?case by (simp add: add.commute)
qed

lemma sunIndexOf_inv: "scanInv multiply ls (sunLoop multiply ls 0 sunStart)"
  using scanInv_loop [OF scanInv_start, of multiply ls] by simp

lemma sunIndexOf_empty: "sunIndexOf multiply [] = - 1"
  by (simp add: sunIndexOf_def sunStart_def)

lemma sunIndexOf_sun:
  "hasCandidate multiply ls \<Longrightarrow> \<exists>k. sunIndexOf multiply ls = int k \<and> isSunOf multiply ls k"
  using sunIndexOf_inv [of multiply ls] by (auto simp: scanInv_def sunIndexOf_def)

lemma sunIndexOf_no_sun:
  "\<not> hasCandidate multiply ls \<Longrightarrow> noShadowIndex ls (sunIndexOf multiply ls)"
  using sunIndexOf_inv [of multiply ls] by (simp add: scanInv_def sunIndexOf_def)

lemma isSunOf_casts:
  "isSunOf multiply ls k \<Longrightarrow> list_ex casts ls \<Longrightarrow> k < length ls \<and> casts (ls ! k)"
  by (simp add: isSunOf_def inTier_def)

lemma isSunOf_unique:
  assumes "isSunOf multiply ls k" and "isSunOf multiply ls k'"
  shows "k = k'"
proof (rule ccontr)
  assume "k \<noteq> k'"
  then consider "k < k'" | "k' < k" by arith
  then have ne: "product multiply (ls ! k) \<noteq> product multiply (ls ! k')"
  proof cases
    case 1
    with assms show ?thesis unfolding isSunOf_def by blast
  next
    case 2
    with assms have "product multiply (ls ! k') \<noteq> product multiply (ls ! k)"
      unfolding isSunOf_def by blast
    then show ?thesis by simp
  qed
  from assms have "canWin (product multiply (ls ! k))" "canWin (product multiply (ls ! k'))"
    by (simp_all add: isSunOf_def)
  from jsLess_total [OF this ne]
  have "jsLess (product multiply (ls ! k)) (product multiply (ls ! k'))
        \<or> jsLess (product multiply (ls ! k')) (product multiply (ls ! k))" .
  moreover from assms
  have "\<not> jsLess (product multiply (ls ! k)) (product multiply (ls ! k'))"
    "\<not> jsLess (product multiply (ls ! k')) (product multiply (ls ! k))"
    by (simp_all add: isSunOf_def)
  ultimately show False by simp
qed

lemma sunEngine_index: "getSunLightIndex exactTimes sunEngine = 1"
  by (simp add: getSunLightIndex_def sunIndexOf_def sunStart_def sunStep_def sunEngine_def
      newEngine_def newLight_def ShadowType_None_def Let_def)

lemma sunEngine_candidate: "hasCandidate exactTimes (directLightsOf sunEngine)"
  by (simp add: hasCandidate_def directLightsOf_def sunEngine_def newEngine_def newLight_def
      casts_def product_def canWin_def ShadowType_None_def)

lemma nanEngine_index: "getSunLightIndex exactTimes nanEngine = 0"
  by (simp add: getSunLightIndex_def sunIndexOf_def sunStart_def sunStep_def nanEngine_def
      newEngine_def newLight_def ShadowType_None_def Let_def)

lemma nanEngine_no_candidate: "\<not> hasCandidate exactTimes (directLightsOf nanEngine)"
  by (simp add: hasCandidate_def directLightsOf_def nanEngine_def newEngine_def newLight_def
      casts_def product_def canWin_def ShadowType_None_def)

text \<open>
  Claim C1 fails for a product that is not a number: such a product is never greater
  than the running maximum. Of two directional lights, the first casting no shadow with
  intensity 1 and the second casting shadows with an intensity that is not a number,
  \<open>_getSunLightIndex\<close> returns 0, the position of the light that casts no shadow,
  although a directional light casts shadows. And with one directional light, whose
  intensity is not a number, it returns -1, although there is a directional light.
\<close>

theorem getSunLightIndex_not_a_number:
  "directLights (lightManager nanEngine) = [1, 2]
   \<and> list_ex casts (directLightsOf nanEngine)
   \<and> \<not> casts (directLightsOf nanEngine ! 0)
   \<and> casts (directLightsOf nanEngine ! 1)
   \<and> product exactTimes (directLightsOf nanEngine ! 0) = Finite 1
   \<and> product exactTimes (directLightsOf nanEngine ! 1) = NaN
   \<and> getSunLightIndex exactTimes nanEngine = 0
   \<and> directLights (lightManager loneEngine) = [1]
   \<and> product exactTimes (directLightsOf loneEngine ! 0) = NaN
   \<and> getSunLightIndex exactTimes loneEngine = - 1"
  by (simp add: getSunLightIndex_def sunIndexOf_def sunStart_def sunStep_def nanEngine_def
      loneEngine_def directLightsOf_def newEngine_def newLight_def casts_def product_def
      ShadowType_None_def Let_def)

text \<open>
  Claim C1, as the code has it. \<open>_getSunLightIndex\<close> returns -1 when there is no
  directional light. A product of intensity and colour brightness can win when it is a number
  greater than minus infinity. When some light of the winning tier (the shadow-casting
  lights if there is one, all lights otherwise) has a product that can win, the index
  returned is the position of the sun among the directional lights: a light of the
  tier whose product can win, that no light of the tier exceeds, and that no earlier
  light of the tier equals. When moreover some directional light casts shadows, the
  light returned casts shadows, whatever the intensity of the others. When no light of
  the winning tier has a product that can win, the index returned is -1 or, when some
  directional light casts shadows, the position of a light that casts none.
\<close>

theorem getSunLightIndex_policy:
  "(directLights (lightManager e) = [] \<longrightarrow> getSunLightIndex multiply e = - 1)
   \<and> (hasCandidate multiply (directLightsOf e) \<longrightarrow>
        (\<exists>k. getSunLightIndex multiply e = int k \<and> isSunOf multiply (directLightsOf e) k))
   \<and> (hasCandidate multiply (directLightsOf e) \<and> list_ex casts (directLightsOf e) \<longrightarrow>
        (\<exists>k < length (directLightsOf e).
           getSunLightIndex multiply e = int k \<and> casts (directLightsOf e ! k)))
   \<and> (\<not> hasCandidate multiply (directLightsOf e) \<longrightarrow>
        noShadowIndex (directLightsOf e) (getSunLightIndex multiply e))"
proof (intro conjI impI)
  assume "directLights (lightManager e) = []"
  then show "getSunLightIndex multiply e = - 1"
    by (simp add: getSunLightIndex_def sunIndexOf_empty)
next
  assume "hasCandidate multiply (directLightsOf e)"
  from sunIndexOf_sun [OF this]
  show "\<exists>k. getSunLightIndex multiply e = int k \<and> isSunOf multiply (directLightsOf e) k"
    by (simp add: getSunLightIndex_def directLightsOf_def)
next
  assume a: "hasCandidate multiply (directLightsOf e) \<and> list_ex casts (directLightsOf e)"
  from sunIndexOf_sun [of multiply "directLightsOf e"] a
  obtain k where k: "sunIndexOf multiply (directLightsOf e) = int k"
    "isSunOf multiply (directLightsOf e) k" by blast
  from isSunOf_casts [OF k(2)] a k(1)
  show "\<exists>k < length (directLightsOf e).
          getSunLightIndex multiply e = int k \<and> casts (directLightsOf e ! k)"
    by (auto simp: getSunLightIndex_def directLightsOf_def)
next
  assume "\<not> hasCandidate multiply (directLightsOf e)"
  from sunIndexOf_no_sun [OF this]
  show "noShadowIndex (directLightsOf e) (getSunLightIndex multiply e)"
    by (simp add: getSunLightIndex_def directLightsOf_def)
qed

theorem getSunLightIndex_policy_witness:
  "hasCandidate exactTimes (directLightsOf sunEngine)
   \<and> list_ex casts (directLightsOf sunEngine)
   \<and> \<not> casts (directLightsOf sunEngine ! 0)
   \<and> product exactTimes (directLightsOf sunEngine ! 0) = Finite 100
   \<and> product exactTimes (directLightsOf sunEngine ! 1) = Finite 1
   \<and> getSunLightIndex exactTimes sunEngine = 1
   \<and> isSunOf exactTimes (directLightsOf sunEngine) 1
   \<and> casts (directLightsOf sunEngine ! 1)
   \<and> directLights (lightManager newEngine) = []
   \<and> getSunLightIndex exactTimes newEngine = - 1
   \<and> \<not> hasCandidate exactTimes (directLightsOf nanEngine)
   \<and> getSunLightIndex exactTimes nanEngine = 0
   \<and> noShadowIndex (directLightsOf nanEngine) 0"
proof -
  note policy = getSunLightIndex_policy [of sunEngine exactTimes]
  from policy sunEngine_candidate
  obtain k where k: "getSunLightIndex exactTimes sunEngine = int k"
    "isSunOf exactTimes (directLightsOf sunEngine) k" by blast
  from k(1) sunEngine_index have "k = 1" by simp
  with k(2) have sun: "isSunOf exactTimes (directLightsOf sunEngine) 1" by simp
  from getSunLightIndex_policy [of newEngine exactTimes]
  have none: "getSunLightIndex exactTimes newEngine = - 1" by (simp add: newEngine_def)
  from getSunLightIndex_policy [of nanEngine exactTimes] nanEngine_no_candidate
  have "noShadowIndex (directLightsOf nanEngine) (getSunLightIndex exactTimes nanEngine)"
    by blast
  with nanEngine_index have no: "noShadowIndex (directLightsOf nanEngine) 0" by simp
  from sun none no sunEngine_index sunEngine_candidate nanEngine_index nanEngine_no_candidate
  show ?thesis
    by (simp add: directLightsOf_def sunEngine_def newEngine_def newLight_def casts_def
        product_def ShadowType_None_def)
qed

section \<open>The sun light the scene keeps\<close>

lemma countMacro_other: "m \<noteq> n \<Longrightarrow> macros (countMacro n c sd) m = macros sd m"
  by (simp add: countMacro_def enableMacro_def disableMacro_def)

lemma LightManager_updateShaderData_other:
  "m \<noteq> ''O3_DIRECT_LIGHT_COUNT'' \<Longrightarrow> m \<noteq> ''O3_POINT_LIGHT_COUNT'' \<Longrightarrow>
   m \<noteq> ''O3_SPOT_LIGHT_COUNT'' \<Longrightarrow>
   macros (LightManager_updateShaderData lm sd) m = macros sd m"
  by (simp add: LightManager_updateShaderData_def Let_def countMacro_other)

lemma no_direct_light_no_index:
  "directLights (lightManager e) = [] \<Longrightarrow> getSunLightIndex multiply e = - 1"
  by (simp add: getSunLightIndex_def sunIndexOf_empty)

text \<open>
  Claim C10. When the light manager holds no directional light,
  \<open>Scene._updateShaderData\<close> leaves the cached sun light of the scene as it was, and
  decides the macros against that light: \<open>CASCADED_SHADOW_MAP\<close> is enabled when and only
  when the scene casts shadows and the cached light exists and has a shadow type other
  than \<open>None\<close>; then \<open>SHADOW_MODE\<close> is enabled with the shadow type of the cached
  light, and otherwise \<open>SHADOW_MODE\<close> is as it was.
\<close>

theorem updateShaderData_keeps_sunLight:
  assumes "directLights (lightManager e) = []"
  shows "sunLight (Scene_updateShaderData multiply e sc) = sunLight sc
         \<and> macros (sceneShaderData (Scene_updateShaderData multiply e sc))
             ''CASCADED_SHADOW_MAP''
           = (case sunLight sc of
                None \<Rightarrow> None
              | Some r \<Rightarrow>
                  if castShadows sc \<and> shadowType (directStore e r) \<noteq> ShadowType_None
                  then Some NoValue else None)
         \<and> macros (sceneShaderData (Scene_updateShaderData multiply e sc)) ''SHADOW_MODE''
           = (case sunLight sc of
                None \<Rightarrow> macros (sceneShaderData sc) ''SHADOW_MODE''
              | Some r \<Rightarrow>
                  if castShadows sc \<and> shadowType (directStore e r) \<noteq> ShadowType_None
                  then Some (NumberValue (shadowType (directStore e r)))
                  else macros (sceneShaderData sc) ''SHADOW_MODE'')"
  using no_direct_light_no_index [OF assms, of multiply]
  by (simp add: Scene_updateShaderData_def Let_def enableMacro_def disableMacro_def
      LightManager_updateShaderData_other split: option.splits)

theorem updateShaderData_keeps_sunLight_witness:
  "directLights (lightManager darkEngine) = []
   \<and> sunLight (Scene_updateShaderData exactTimes darkEngine (newScene\<lparr>sunLight := Some 5\<rparr>)) = Some 5
   \<and> macros (sceneShaderData
        (Scene_updateShaderData exactTimes darkEngine (newScene\<lparr>sunLight := Some 5\<rparr>)))
        ''CASCADED_SHADOW_MAP'' = Some NoValue
   \<and> macros (sceneShaderData
        (Scene_updateShaderData exactTimes darkEngine (newScene\<lparr>sunLight := Some 5\<rparr>)))
        ''SHADOW_MODE'' = Some (NumberValue 1)"
proof -
  have none: "directLights (lightManager darkEngine) = []"
    by (simp add: darkEngine_def newEngine_def)
  from updateShaderData_keeps_sunLight [OF none, of "exactTimes" "newScene\<lparr>sunLight := Some 5\<rparr>"] none
  show ?thesis
    by (simp add: darkEngine_def newEngine_def newScene_def newLight_def ShadowType_None_def)
qed

section \<open>The entity at a path\<close>

lemma resolveChildren_None: "resolveChildren w segs None = None"
  by (induction segs) (simp_all add: resolveChildren_def)

lemma resolveChildren_Cons:
  "resolveChildren w (seg # segs) (Some x) =
     resolveChildren w segs (Entity_findChildByName w x seg)"
  by (simp add: resolveChildren_def)

lemma walkPath_resolveChildren: "walkPath w segs x = resolveChildren w segs (Some x)"
proof (induction segs arbitrary: x)
  case Nil
  then show ?case by (simp add: resolveChildren_def)
next
  case (Cons seg segs)
  show ?case
  proof (cases "Entity_findChildByName w x seg")
    case None
    then show ?thesis by (simp add: resolveChildren_Cons resolveChildren_None)
  next
    case (Some c)
    with Cons.IH [of c] show ?thesis by (simp add: resolveChildren_Cons)
  qed
qed

lemma findFromRoots_no_segment:
  "findFromRoots w [] rs = find (\<lambda>r. name (entities w r) = None) rs"
  by (induction rs) simp_all

lemma findFromRoots_first:
  "findFromRoots w (s # rest) rs =
     resolveChildren w rest (find (\<lambda>r. name (entities w r) = Some s) rs)"
proof (induction rs)
  case Nil
  then show ?case by (simp add: resolveChildren_None)
next
  case (Cons r rs)
  then show ?case by (simp add: walkPath_resolveChildren)
qed

lemma findEntityByPath_segments:
  "segmentsOf path \<noteq> [] \<Longrightarrow> findEntityByPath w sc path = resolvePath w sc path"
proof (cases "segmentsOf path")
  case Nil
  assume "segmentsOf path \<noteq> []"
  with Nil show ?thesis by simp
next
  case (Cons s rest)
  then show ?thesis
    by (simp add: findEntityByPath_def resolvePath_def segmentsOf_def findFromRoots_first)
qed

lemma findEntityByPath_no_segment:
  "segmentsOf path = [] \<Longrightarrow>
   findEntityByPath w sc path = find (\<lambda>r. name (entities w r) = None) (roots w sc)"
  by (simp add: findEntityByPath_def segmentsOf_def findFromRoots_no_segment)

lemma segmentsOf_ABC: "segmentsOf ''A/B/C'' = [''A'', ''B'', ''C'']"
  by (simp add: segmentsOf_def)

lemma segmentsOf_AX: "segmentsOf ''A/X'' = [''A'', ''X'']"
  by (simp add: segmentsOf_def)

lemma segmentsOf_discards_empty: "segmentsOf ''/A//B/'' = [''A'', ''B'']"
  by (simp add: segmentsOf_def)

lemma resolveChildren_name:
  "resolveChildren w segs (Some r) = Some x \<Longrightarrow> segs \<noteq> [] \<Longrightarrow>
   name (entities w x) = Some (last segs)"
proof (induction segs arbitrary: r)
  case Nil
  then show ?case by simp
next
  case (Cons seg segs)
  from Cons.prems(1) obtain c where c: "Entity_findChildByName w r seg = Some c"
    and rest: "resolveChildren w segs (Some c) = Some x"
    by (cases "Entity_findChildByName w r seg")
      (simp_all add: resolveChildren_Cons resolveChildren_None)
  show ?case
  proof (cases "segs = []")
    case True
    with rest have "x = c" by (simp add: resolveChildren_def)
    moreover from c have "name (entities w c) = Some seg"
      by (auto simp: Entity_findChildByName_def find_Some_iff)
    ultimately show ?thesis using True by simp
  next
    case False
    with Cons.IH [OF rest] show ?thesis by simp
  qed
qed

lemma segmentsOf_empty: "segmentsOf [] = [] \<and> segmentsOf ''/'' = []"
  by (simp add: segmentsOf_def)

text \<open>
  Claim C8 fails for a path without a segment (the empty path, or a path of separators
  only) in a scene that has a root entity without a name: no segment is matched against
  the name of a root entity, the specification's resolution gives none, and
  \<open>findEntityByPath\<close> returns the first root entity without a name.
\<close>

theorem findEntityByPath_returns_nameless_root:
  "resolvePath namelessWorld 0 [] = None
   \<and> findEntityByPath namelessWorld 0 [] = Some 5
   \<and> resolvePath namelessWorld 0 ''/'' = None
   \<and> findEntityByPath namelessWorld 0 ''/'' = Some 5
   \<and> name (entities namelessWorld 5) = None"
  by (simp add: findEntityByPath_no_segment segmentsOf_empty resolvePath_def
      namelessWorld_def newEntity_def)

text \<open>
  Claim C8, as the code has it. For a path with at least one segment,
  \<open>findEntityByPath\<close> is the resolution of the path as the specification words it
  (\<open>resolvePath\<close>): split on the separator, empty segments discarded, the first segment
  matched against the names of the root entities in forward order, each remaining segment
  resolved as a child name, none when a segment does not resolve. For a path without a
  segment it returns the first root entity that has no name, and none when every root
  entity has a name. In particular, where A is the root entity matched by the name A, B
  the child of A found by the name B and C the child of B found by the name C, the path
  A/B/C gives C; and where A has no child found by the name X, the path A/X gives none.
\<close>

theorem findEntityByPath_resolves:
  "(segmentsOf path \<noteq> [] \<longrightarrow> findEntityByPath w sc path = resolvePath w sc path)
   \<and> (segmentsOf path = [] \<longrightarrow>
        findEntityByPath w sc path = find (\<lambda>r. name (entities w r) = None) (roots w sc))
   \<and> (find (\<lambda>r. name (entities w r) = Some ''A'') (roots w sc) = Some a \<longrightarrow>
        Entity_findChildByName w a ''B'' = Some b \<longrightarrow>
        Entity_findChildByName w b ''C'' = Some c \<longrightarrow>
        findEntityByPath w sc ''A/B/C'' = Some c)
   \<and> (find (\<lambda>r. name (entities w r) = Some ''A'') (roots w sc) = Some a \<longrightarrow>
        Entity_findChildByName w a ''X'' = None \<longrightarrow>
        findEntityByPath w sc ''A/X'' = None)"
proof (intro conjI impI)
  assume "segmentsOf path \<noteq> []"
  then show "findEntityByPath w sc path = resolvePath w sc path"
    by (rule findEntityByPath_segments)
next
  assume "segmentsOf path = []"
  then show "findEntityByPath w sc path = find (\<lambda>r. name (entities w r) = None) (roots w sc)"
    by (rule findEntityByPath_no_segment)
next
  assume "find (\<lambda>r. name (entities w r) = Some ''A'') (roots w sc) = Some a"
    and "Entity_findChildByName w a ''B'' = Some b"
    and "Entity_findChildByName w b ''C'' = Some c"
  then show "findEntityByPath w sc ''A/B/C'' = Some c"
    by (simp add: findEntityByPath_segments resolvePath_def segmentsOf_ABC
        resolveChildren_Cons resolveChildren_def)
next
  assume "find (\<lambda>r. name (entities w r) = Some ''A'') (roots w sc) = Some a"
    and "Entity_findChildByName w a ''X'' = None"
  then show "findEntityByPath w sc ''A/X'' = None"
    by (simp add: findEntityByPath_segments resolvePath_def segmentsOf_AX
        resolveChildren_Cons resolveChildren_None)
qed

theorem findEntityByPath_resolves_witness:
  "find (\<lambda>r. name (entities abcWorld r) = Some ''A'') (roots abcWorld 0) = Some 1
   \<and> Entity_findChildByName abcWorld 1 ''B'' = Some 2
   \<and> Entity_findChildByName abcWorld 2 ''C'' = Some 3
   \<and> Entity_findChildByName abcWorld 1 ''X'' = None
   \<and> findEntityByPath abcWorld 0 ''A/B/C'' = Some 3
   \<and> findEntityByPath abcWorld 0 ''A/X'' = None
   \<and> segmentsOf ''A/B/C'' \<noteq> []
   \<and> findEntityByPath abcWorld 0 ''A/B/C'' = resolvePath abcWorld 0 ''A/B/C''
   \<and> segmentsOf [] = []
   \<and> findEntityByPath abcWorld 0 [] = None"
proof -
  have a: "find (\<lambda>r. name (entities abcWorld r) = Some ''A'') (roots abcWorld 0) = Some 1"
    by (simp add: abcWorld_def newEntity_def)
  have b: "Entity_findChildByName abcWorld 1 ''B'' = Some 2"
    by (simp add: Entity_findChildByName_def abcWorld_def newEntity_def)
  have c: "Entity_findChildByName abcWorld 2 ''C'' = Some 3"
    by (simp add: Entity_findChildByName_def abcWorld_def newEntity_def)
  have x: "Entity_findChildByName abcWorld 1 ''X'' = None"
    by (simp add: Entity_findChildByName_def abcWorld_def newEntity_def)
  have s1: "segmentsOf ''A/B/C'' \<noteq> []" by (simp add: segmentsOf_ABC)
  have s0: "segmentsOf [] = []" by (simp add: segmentsOf_empty)
  have named: "find (\<lambda>r. name (entities abcWorld r) = None) (roots abcWorld 0) = None"
    by (simp add: abcWorld_def newEntity_def)
  note t = findEntityByPath_resolves [of "''A/B/C''" abcWorld 0 1 2 3]
  note u = findEntityByPath_resolves [of "[]" abcWorld 0 1 2 3]
  from t a b c have r1: "findEntityByPath abcWorld 0 ''A/B/C'' = Some 3" by blast
  from t a x have r2: "findEntityByPath abcWorld 0 ''A/X'' = None" by blast
  from t s1 have r3: "findEntityByPath abcWorld 0 ''A/B/C'' = resolvePath abcWorld 0 ''A/B/C''"
    by blast
  from u s0 have "findEntityByPath abcWorld 0 [] =
      find (\<lambda>r. name (entities abcWorld r) = None) (roots abcWorld 0)" by blast
  with named have r4: "findEntityByPath abcWorld 0 [] = None" by simp
  from a b c x r1 r2 r3 r4 s1 s0 show ?thesis by blast
qed

section \<open>What the calls on a scene change\<close>

lemma roots_setRoots: "roots (setRoots s xs w) s' = (if s' = s then xs else roots w s')"
  by (simp add: setRoots_def)

lemma entities_setRoots: "entities (setRoots s xs w) = entities w"
  by (simp add: setRoots_def)

lemma isActiveInEngine_setRoots:
  "isActiveInEngine (scenes (setRoots s xs w) s') = isActiveInEngine (scenes w s')"
  by (simp add: setRoots_def)

lemma scenes_setSiblingIndex: "scenes (setSiblingIndex x i w) = scenes w"
  by (simp add: setSiblingIndex_def)

lemma entities_setSiblingIndex:
  "entities (setSiblingIndex x i w) y =
     (if y = x then (entities w x)\<lparr>siblingIndex := i\<rparr> else entities w y)"
  by (simp add: setSiblingIndex_def)

lemma shiftSiblings_but_index:
  "(shiftSiblings d xs es y)\<lparr>siblingIndex := k\<rparr> = (es y)\<lparr>siblingIndex := k\<rparr>"
  by (induction xs arbitrary: es) simp_all

lemma shiftSiblings_fields:
  "isRoot (shiftSiblings d xs es y) = isRoot (es y)"
  "scene (shiftSiblings d xs es y) = scene (es y)"
  "parent (shiftSiblings d xs es y) = parent (es y)"
  "children (shiftSiblings d xs es y) = children (es y)"
  "name (shiftSiblings d xs es y) = name (es y)"
  "isActive (shiftSiblings d xs es y) = isActive (es y)"
  "isActiveInHierarchy (shiftSiblings d xs es y) = isActiveInHierarchy (es y)"
proof -
  note e = shiftSiblings_but_index [where d = d and xs = xs and es = es and y = y and k = "Integer 0"]
  from arg_cong [where f = isRoot, OF e] show "isRoot (shiftSiblings d xs es y) = isRoot (es y)" by simp
  from arg_cong [where f = scene, OF e] show "scene (shiftSiblings d xs es y) = scene (es y)" by simp
  from arg_cong [where f = parent, OF e] show "parent (shiftSiblings d xs es y) = parent (es y)" by simp
  from arg_cong [where f = children, OF e] show "children (shiftSiblings d xs es y) = children (es y)" by simp
  from arg_cong [where f = name, OF e] show "name (shiftSiblings d xs es y) = name (es y)" by simp
  from arg_cong [where f = isActive, OF e] show "isActive (shiftSiblings d xs es y) = isActive (es y)" by simp
  from arg_cong [where f = isActiveInHierarchy, OF e]
  show "isActiveInHierarchy (shiftSiblings d xs es y) = isActiveInHierarchy (es y)" by simp
qed



text \<open>What the methods of an entity leave as it is.\<close>

lemma scenes_removeFromParent: "scenes (Entity_removeFromParent x w) = scenes w"
  by (simp add: Entity_removeFromParent_def Let_def split: option.splits)

lemma removeFromParent_fields:
  "isRoot (entities (Entity_removeFromParent x w) y) = isRoot (entities w y)"
  "scene (entities (Entity_removeFromParent x w) y) = scene (entities w y)"
  "siblingIndex (entities (Entity_removeFromParent x w) y) = siblingIndex (entities w y)"
  by (simp_all add: Entity_removeFromParent_def Let_def split: option.splits)



lemma scenes_processEntityActive: "scenes (processEntityActive sc x w) = scenes w"
  by (simp add: processEntityActive_def Entity_processActive_def Entity_processInActive_def)

lemma processEntityActive_fields:
  "isRoot (entities (processEntityActive sc x w) y) = isRoot (entities w y)"
  "scene (entities (processEntityActive sc x w) y) = scene (entities w y)"
  "siblingIndex (entities (processEntityActive sc x w) y) = siblingIndex (entities w y)"
  "parent (entities (processEntityActive sc x w) y) = parent (entities w y)"
  "children (entities (processEntityActive sc x w) y) = children (entities w y)"
  by (simp_all add: processEntityActive_def Entity_processActive_def Entity_processInActive_def)



text \<open>The two methods on the list of root entities.\<close>

lemma removeFromEntityList_outcome:
  "fst (removeFromEntityList old x w) =
     (if negative (siblingIndex (entities w x)) then Some TypeError else None)"
  by (simp add: removeFromEntityList_def Let_def split: indexNumber.splits)

lemma removeFromEntityList_roots:
  "roots (snd (removeFromEntityList old x w)) s =
     (if s = old then spliceDelete (toInteger (siblingIndex (entities w x))) (roots w old)
      else roots w s)"
  by (simp add: removeFromEntityList_def Let_def roots_setRoots scenes_setSiblingIndex
      split: indexNumber.splits)

lemma removeFromEntityList_fields:
  "isRoot (entities (snd (removeFromEntityList old x w)) y) = isRoot (entities w y)"
  "scene (entities (snd (removeFromEntityList old x w)) y) = scene (entities w y)"
  "parent (entities (snd (removeFromEntityList old x w)) y) = parent (entities w y)"
  "children (entities (snd (removeFromEntityList old x w)) y) = children (entities w y)"
  by (simp_all add: removeFromEntityList_def Let_def entities_setRoots
      entities_setSiblingIndex shiftSiblings_fields split: indexNumber.splits)

lemma addToRootEntityList_out_of_bounds:
  "i < 0 \<or> i > int (length (roots w sc)) \<Longrightarrow>
   addToRootEntityList sc (Some (Integer i)) x w = (Some (OutOfBounds i (length (roots w sc))), w)"
  by (simp add: addToRootEntityList_def Let_def)

section \<open>Adding a root entity at an index out of bounds\<close>

lemma andThen_fst_error: "fst r = Some err \<Longrightarrow> andThen r f = r"
  by (cases r) (simp add: andThen_def)

lemma andThen_ok: "fst r = None \<Longrightarrow> andThen r f = f (snd r)"
  by (cases r) (simp add: andThen_def)

lemma addRootEntity_already_root:
  assumes "isRoot (entities w x)" and "scene (entities w x) = Some sc"
  shows "addRootEntity sc index x w = (None, processEntityActive sc x w)"
  using assms by (simp add: addRootEntity_def Let_def)

lemma addRootEntity_out_of_bounds:
  assumes range: "i < 0 \<or> i > int (length (roots w sc))"
    and notroot: "\<not> (isRoot (entities w x) \<and> scene (entities w x) = Some sc)"
  shows "fst (addRootEntity sc (Some (Integer i)) x w) =
           (if isRoot (entities w x) \<and> scene (entities w x) \<noteq> None
               \<and> negative (siblingIndex (entities w x))
            then Some TypeError
            else Some (OutOfBounds i (length (roots w sc))))
         \<and> roots (snd (addRootEntity sc (Some (Integer i)) x w)) sc = roots w sc
         \<and> scene (entities (snd (addRootEntity sc (Some (Integer i)) x w)) x) = scene (entities w x)"
proof (cases "isRoot (entities w x)")
  case True
  with notroot have ns: "scene (entities w x) \<noteq> Some sc" by simp
  show ?thesis
  proof (cases "scene (entities w x)")
    case None
    with True range show ?thesis
      by (simp add: addRootEntity_def Let_def andThen_def addToRootEntityList_out_of_bounds)
  next
    case (Some old)
    with ns have diff: "old \<noteq> sc" by simp
    let ?r = "removeFromEntityList old x w"
    have call: "addRootEntity sc (Some (Integer i)) x w =
                  andThen ?r (\<lambda>w2. andThen (addToRootEntityList sc (Some (Integer i)) x w2)
                     (\<lambda>w3. (None, processEntityActive sc x
                                     (Entity_traverseSetOwnerScene x (Some sc) w3))))"
      using True Some diff by (simp add: addRootEntity_def Let_def)
    have rts: "roots (snd ?r) sc = roots w sc"
      using diff by (simp add: removeFromEntityList_roots)
    have scn: "scene (entities (snd ?r) x) = scene (entities w x)"
      by (simp add: removeFromEntityList_fields)
    show ?thesis
    proof (cases "negative (siblingIndex (entities w x))")
      case neg: True
      then have "fst ?r = Some TypeError" by (simp add: removeFromEntityList_outcome)
      then have "andThen ?r (\<lambda>w2. andThen (addToRootEntityList sc (Some (Integer i)) x w2)
                     (\<lambda>w3. (None, processEntityActive sc x
                                     (Entity_traverseSetOwnerScene x (Some sc) w3)))) = ?r"
        by (rule andThen_fst_error)
      with call have "addRootEntity sc (Some (Integer i)) x w = ?r" by simp
      with neg True Some rts scn show ?thesis
        by (simp add: removeFromEntityList_outcome)
    next
      case pos: False
      then have ok: "fst ?r = None" by (simp add: removeFromEntityList_outcome)
      from range rts have "i < 0 \<or> i > int (length (roots (snd ?r) sc))" by simp
      then have add: "addToRootEntityList sc (Some (Integer i)) x (snd ?r) =
                        (Some (OutOfBounds i (length (roots w sc))), snd ?r)"
        using rts by (simp add: addToRootEntityList_out_of_bounds)
      from call ok have "addRootEntity sc (Some (Integer i)) x w =
          andThen (addToRootEntityList sc (Some (Integer i)) x (snd ?r))
            (\<lambda>w3. (None, processEntityActive sc x
                            (Entity_traverseSetOwnerScene x (Some sc) w3)))"
        by (simp add: andThen_ok)
      also have "\<dots> = (Some (OutOfBounds i (length (roots w sc))), snd ?r)"
        unfolding add by (simp add: andThen_def)
      finally have "addRootEntity sc (Some (Integer i)) x w =
                               (Some (OutOfBounds i (length (roots w sc))), snd ?r)" .
      with pos rts scn show ?thesis by simp
    qed
  qed
next
  case False
  let ?w0 = "w\<lparr>entities := (entities w)(x := (entities w x)\<lparr>isRoot := True\<rparr>)\<rparr>"
  let ?w1 = "Entity_removeFromParent x ?w0"
  have rts: "roots ?w1 sc = roots w sc" by (simp add: scenes_removeFromParent)
  have scn: "scene (entities ?w1 x) = scene (entities w x)"
    by (simp add: removeFromParent_fields)
  from range rts have add: "addToRootEntityList sc (Some (Integer i)) x ?w1 =
                        (Some (OutOfBounds i (length (roots w sc))), ?w1)"
    using addToRootEntityList_out_of_bounds [of i ?w1 sc x] by simp
  have "addRootEntity sc (Some (Integer i)) x w = (Some (OutOfBounds i (length (roots w sc))), ?w1)"
    using False add scn
    by (simp add: addRootEntity_def Let_def andThen_def split: option.splits)
  with False rts scn show ?thesis by simp
qed

lemma addRootEntity_already_root_keeps:
  assumes "isRoot (entities w x)" and "scene (entities w x) = Some sc"
  shows "fst (addRootEntity sc index x w) = None
         \<and> roots (snd (addRootEntity sc index x w)) sc = roots w sc
         \<and> isRoot (entities (snd (addRootEntity sc index x w)) x)
         \<and> scene (entities (snd (addRootEntity sc index x w)) x) = Some sc
         \<and> parent (entities (snd (addRootEntity sc index x w)) x) = parent (entities w x)"
  using assms
  by (simp add: addRootEntity_already_root scenes_processEntityActive
      processEntityActive_fields)

text \<open>
  Claim C5 fails in two ways. An entity that is a child of another, added at an index
  out of bounds: the error is thrown, and the entity has already been flagged as root
  and detached from its parent. An entity that is already a root entity of the scene,
  added at an index out of bounds: no error is thrown.
\<close>

theorem addRootEntity_out_of_bounds_changes_entity:
  "int (length (roots abcWorld 0)) < 7
   \<and> fst (addRootEntity 0 (Some (Integer 7)) 2 abcWorld) = Some (OutOfBounds 7 2)
   \<and> isRoot (entities abcWorld 2) = False
   \<and> isRoot (entities (snd (addRootEntity 0 (Some (Integer 7)) 2 abcWorld)) 2) = True
   \<and> parent (entities abcWorld 2) = Some 1
   \<and> parent (entities (snd (addRootEntity 0 (Some (Integer 7)) 2 abcWorld)) 2) = None
   \<and> children (entities abcWorld 1) = [2]
   \<and> children (entities (snd (addRootEntity 0 (Some (Integer 7)) 2 abcWorld)) 1) = []
   \<and> fst (addRootEntity 0 (Some (Integer 7)) 1 abcWorld) = None"
  by (simp add: addRootEntity_def Let_def abcWorld_def newScene_def newEntity_def
      Entity_removeFromParent_def addToRootEntityList_def andThen_def)

text \<open>
  Claim C5, as the code has it. Let the index be negative or greater than the number of
  root entities of the scene. For an entity that is already a root entity of the scene
  the call throws nothing and leaves the root entities, the root flag, the owning scene
  and the parent of the entity as they are. For every other entity the call throws: the
  out-of-bounds error, or, for a root entity of another scene whose sibling index is
  negative, the error of the removal from that scene. When the out-of-bounds error is
  thrown, the root entities of the scene and the owning scene of the entity are as
  before the call.
\<close>

theorem addRootEntity_index_out_of_bounds:
  assumes "i < 0 \<or> i > int (length (roots w sc))"
  shows "(if isRoot (entities w x) \<and> scene (entities w x) = Some sc
          then fst (addRootEntity sc (Some (Integer i)) x w) = None
               \<and> roots (snd (addRootEntity sc (Some (Integer i)) x w)) sc = roots w sc
               \<and> isRoot (entities (snd (addRootEntity sc (Some (Integer i)) x w)) x)
               \<and> scene (entities (snd (addRootEntity sc (Some (Integer i)) x w)) x) = Some sc
               \<and> parent (entities (snd (addRootEntity sc (Some (Integer i)) x w)) x)
                   = parent (entities w x)
          else fst (addRootEntity sc (Some (Integer i)) x w) =
                 (if isRoot (entities w x) \<and> scene (entities w x) \<noteq> None
                     \<and> negative (siblingIndex (entities w x))
                  then Some TypeError
                  else Some (OutOfBounds i (length (roots w sc)))))
         \<and> (fst (addRootEntity sc (Some (Integer i)) x w) = Some (OutOfBounds i (length (roots w sc)))
              \<longrightarrow> roots (snd (addRootEntity sc (Some (Integer i)) x w)) sc = roots w sc
                \<and> scene (entities (snd (addRootEntity sc (Some (Integer i)) x w)) x)
                    = scene (entities w x))"
proof (cases "isRoot (entities w x) \<and> scene (entities w x) = Some sc")
  case True
  then have "isRoot (entities w x)" and "scene (entities w x) = Some sc" by simp_all
  from addRootEntity_already_root_keeps [OF this, of "Some (Integer i)"] True
  show ?thesis by simp
next
  case False
  from addRootEntity_out_of_bounds [OF assms False] False
  show ?thesis by simp
qed

theorem addRootEntity_index_out_of_bounds_witness:
  "int (length (roots abcWorld 0)) < 7
   \<and> fst (addRootEntity 0 (Some (Integer 7)) 2 abcWorld) = Some (OutOfBounds 7 2)
   \<and> roots (snd (addRootEntity 0 (Some (Integer 7)) 2 abcWorld)) 0 = [1, 4]
   \<and> scene (entities (snd (addRootEntity 0 (Some (Integer 7)) 2 abcWorld)) 2) = Some 0
   \<and> fst (addRootEntity 0 (Some (Integer 7)) 1 abcWorld) = None
   \<and> roots (snd (addRootEntity 0 (Some (Integer 7)) 1 abcWorld)) 0 = [1, 4]"
proof -
  have range: "(7::int) < 0 \<or> 7 > int (length (roots abcWorld 0))"
    by (simp add: abcWorld_def newScene_def)
  from addRootEntity_index_out_of_bounds [OF range, of 2]
       addRootEntity_index_out_of_bounds [OF range, of 1]
  show ?thesis
    by (simp add: abcWorld_def newScene_def newEntity_def)
qed

section \<open>Lists with an element taken out or put in\<close>









section \<open>The invariant of the root entities\<close>













section \<open>Positions after a deletion and after an insertion\<close>




section \<open>The invariant through the methods of a scene\<close>





























section \<open>What a call on a scene has done\<close>







section \<open>The order of the root entities\<close>










end
